theory Spec2Isabelle
  imports Complex_Main "HOL-Library.AList" "HOL-Library.Char_ord" "HOL-Library.List_Lexorder"
begin

section \<open>Python values, errors and dictionaries\<close>

text \<open>
  The package \<^verbatim>\<open>cw_ndfd_xml\<close> turns a DWML document (\<^verbatim>\<open>dwml.py\<close>) into a forecast
  (\<^verbatim>\<open>forecast.py\<close>). Every exception the Python can raise is a value of \<open>error\<close>;
  a function that can raise returns \<open>error + 'a\<close>, with \<open>Inl\<close> for the exception.
\<close>

datatype error = StopIteration | KeyError | IndexError | AttributeError | TypeError
  | ValueError | UnboundLocalError | OverflowError | ZeroDivisionError

text \<open>
  The values that end up in the forecast dictionaries: \<^verbatim>\<open>None\<close>, a string, an integer or
  a float. Floats are kept abstract (type \<open>'f\<close>); what Python's numeric built-ins do with
  them is a parameter of the model, the record \<open>numerics\<close> below.
\<close>

datatype 'f pyval = PNone | PStr string | PInt int | PFloat 'f

text \<open>
  The numeric built-ins of Python that the code calls. None of them is code of the
  package, so the model takes them as a parameter \<open>N\<close> and every theorem holds for
  whatever they compute:
  \<^item> \<open>fl_of_string\<close>: \<^verbatim>\<open>float(s)\<close> on a string, \<open>None\<close> for ValueError;
  \<^item> \<open>int_of_string\<close>: \<^verbatim>\<open>int(s)\<close> on a string, \<open>None\<close> for ValueError;
  \<^item> \<open>fl_of_int\<close>: \<^verbatim>\<open>float(i)\<close> on an integer;
  \<^item> \<open>fl_trunc\<close>: \<^verbatim>\<open>int(f)\<close> on a float, which raises on infinities and NaN;
  \<^item> \<open>fl_add\<close>, \<open>fl_mul\<close>, \<open>fl_div\<close>: float arithmetic (\<open>fl_div\<close> is only applied to a
    nonzero divisor);
  \<^item> \<open>fl_less\<close>: \<^verbatim>\<open>a < b\<close> on floats; \<open>fl_is_zero\<close>: \<^verbatim>\<open>f == 0\<close>;
  \<^item> \<open>fl_round\<close>: \<^verbatim>\<open>round(f, n)\<close>;
  \<^item> \<open>fl_mph\<close>: the literal \<^verbatim>\<open>1.15077945\<close>.
\<close>

record 'f numerics =
  fl_of_string :: "string \<Rightarrow> 'f option"
  int_of_string :: "string \<Rightarrow> int option"
  fl_of_int :: "int \<Rightarrow> 'f"
  fl_trunc :: "'f \<Rightarrow> error + int"
  fl_add :: "'f \<Rightarrow> 'f \<Rightarrow> 'f"
  fl_mul :: "'f \<Rightarrow> 'f \<Rightarrow> 'f"
  fl_div :: "'f \<Rightarrow> 'f \<Rightarrow> 'f"
  fl_less :: "'f \<Rightarrow> 'f \<Rightarrow> bool"
  fl_is_zero :: "'f \<Rightarrow> bool"
  fl_round :: "'f \<Rightarrow> int \<Rightarrow> 'f"
  fl_mph :: "'f"

text \<open>Truthiness (\<^verbatim>\<open>if x:\<close>), \<^verbatim>\<open>x != 0\<close>, \<^verbatim>\<open>float(x)\<close>, \<^verbatim>\<open>int(x)\<close> and \<^verbatim>\<open>len(str(x)) > 0\<close>.\<close>

fun truthy :: "'f numerics \<Rightarrow> 'f pyval \<Rightarrow> bool" where
  "truthy N PNone = False"
| "truthy N (PStr s) = (s \<noteq> [])"
| "truthy N (PInt i) = (i \<noteq> 0)"
| "truthy N (PFloat f) = (\<not> fl_is_zero N f)"

fun ne_zero :: "'f numerics \<Rightarrow> 'f pyval \<Rightarrow> bool" where
  "ne_zero N PNone = True"
| "ne_zero N (PStr s) = True"
| "ne_zero N (PInt i) = (i \<noteq> 0)"
| "ne_zero N (PFloat f) = (\<not> fl_is_zero N f)"

fun py_float :: "'f numerics \<Rightarrow> 'f pyval \<Rightarrow> error + 'f" where
  "py_float N PNone = Inl TypeError"
| "py_float N (PStr s) = (case fl_of_string N s of None \<Rightarrow> Inl ValueError | Some f \<Rightarrow> Inr f)"
| "py_float N (PInt i) = Inr (fl_of_int N i)"
| "py_float N (PFloat f) = Inr f"

fun py_int :: "'f numerics \<Rightarrow> 'f pyval \<Rightarrow> error + int" where
  "py_int N PNone = Inl TypeError"
| "py_int N (PStr s) = (case int_of_string N s of None \<Rightarrow> Inl ValueError | Some i \<Rightarrow> Inr i)"
| "py_int N (PInt i) = Inr i"
| "py_int N (PFloat f) = fl_trunc N f"

fun str_nonempty :: "'f pyval \<Rightarrow> bool" where
  "str_nonempty (PStr s) = (s \<noteq> [])"
| "str_nonempty v = True"

text \<open>A raw value of the document is the text of an XML element: a string or \<^verbatim>\<open>None\<close>.\<close>

fun raw :: "string option \<Rightarrow> 'f pyval" where
  "raw None = PNone"
| "raw (Some s) = PStr s"

text \<open>
  A \<^verbatim>\<open>dict\<close> is an association list in insertion order, its keys distinct:
  \<open>map_of\<close> looks a key up, \<open>AList.update\<close> stores a value (in place for a key
  already there, at the end for a new one), \<open>AList.delete\<close> removes a key, and
  \<open>map fst\<close> lists the keys.
\<close>

type_synonym ('k, 'v) dict = "('k \<times> 'v) list"

definition has_key :: "('k, 'v) dict \<Rightarrow> 'k \<Rightarrow> bool" where
  "has_key d k = (map_of d k \<noteq> None)"

text \<open>\<^verbatim>\<open>s.split(c)\<close> for a one-character separator: the result is never empty.\<close>

fun split_on :: "char \<Rightarrow> string \<Rightarrow> string list" where
  "split_on c [] = [[]]"
| "split_on c (x # xs) =
     (if x = c then [] # split_on c xs
      else (case split_on c xs of [] \<Rightarrow> [[x]] | w # ws \<Rightarrow> (x # w) # ws))"

text \<open>\<^verbatim>\<open>xs[i]\<close> for a non-negative index: IndexError out of range.\<close>

definition item :: "'a list \<Rightarrow> nat \<Rightarrow> error + 'a" where
  "item xs i = (if i < length xs then Inr (xs ! i) else Inl IndexError)"

text \<open>Sequencing of computations that can raise: the first exception wins.\<close>

definition and_then :: "error + 'a \<Rightarrow> ('a \<Rightarrow> error + 'b) \<Rightarrow> error + 'b" where
  "and_then m f = (case m of Inl e \<Rightarrow> Inl e | Inr x \<Rightarrow> f x)"

section \<open>The document model (\<^verbatim>\<open>dwml.py\<close>)\<close>

text \<open>
  A \<^verbatim>\<open>datetime\<close> as \<^verbatim>\<open>dateutil.parser.isoparse\<close> returns it. The code reads its
  local clock fields only (\<^verbatim>\<open>strftime\<close>, \<^verbatim>\<open>date()\<close>, \<^verbatim>\<open>time()\<close>), never the UTC
  offset, which the record leaves out.
\<close>

record datetime =
  dt_year :: nat
  dt_month :: nat
  dt_day :: nat
  dt_hour :: nat
  dt_minute :: nat
  dt_second :: nat
  dt_microsecond :: nat

definition digit :: "nat \<Rightarrow> char" where
  "digit n = ''0123456789'' ! (n mod 10)"

definition pad2 :: "nat \<Rightarrow> string" where
  "pad2 n = [digit (n div 10), digit n]"

definition pad4 :: "nat \<Rightarrow> string" where
  "pad4 n = [digit (n div 1000), digit (n div 100), digit (n div 10), digit n]"

text \<open>
  \<^verbatim>\<open>dt.strftime('%Y-%m-%d')\<close> and \<^verbatim>\<open>dt.strftime('%H:%M:%S')\<close>, for the four-digit years
  and the two-digit months, days, hours, minutes and seconds of a \<^verbatim>\<open>datetime\<close>.
\<close>

definition strftime_date :: "datetime \<Rightarrow> string" where
  "strftime_date dt = pad4 (dt_year dt) @ ''-'' @ pad2 (dt_month dt) @ ''-'' @ pad2 (dt_day dt)"

definition strftime_time :: "datetime \<Rightarrow> string" where
  "strftime_time dt = pad2 (dt_hour dt) @ '':'' @ pad2 (dt_minute dt) @ '':'' @ pad2 (dt_second dt)"

text \<open>\<^verbatim>\<open>dt.date()\<close> and \<^verbatim>\<open>dt.time()\<close>, compared field by field.\<close>

definition date_of :: "datetime \<Rightarrow> nat \<times> nat \<times> nat" where
  "date_of dt = (dt_year dt, dt_month dt, dt_day dt)"

definition time_of :: "datetime \<Rightarrow> nat \<times> nat \<times> nat \<times> nat" where
  "time_of dt = (dt_hour dt, dt_minute dt, dt_second dt, dt_microsecond dt)"

fun time_less :: "nat \<times> nat \<times> nat \<times> nat \<Rightarrow> nat \<times> nat \<times> nat \<times> nat \<Rightarrow> bool" where
  "time_less (h1, m1, s1, u1) (h2, m2, s2, u2) =
     (h1 < h2 \<or> (h1 = h2 \<and> (m1 < m2 \<or> (m1 = m2 \<and> (s1 < s2 \<or> (s1 = s2 \<and> u1 < u2))))))"

text \<open>\<^verbatim>\<open>DwmlParameterValue\<close>, \<^verbatim>\<open>DwmlParameter\<close>, \<^verbatim>\<open>DwmlLocation\<close>, \<^verbatim>\<open>DwmlTimeLayout\<close>, \<^verbatim>\<open>DwmlDoc\<close>.\<close>

record pvalue =
  pv_value :: "string option"
  pv_start :: datetime
  pv_end :: "datetime option"

record parameter =
  p_tag :: string
  p_name :: "string option"
  p_time_layout_key :: "string option"
  p_values :: "pvalue list"
  p_typ :: "string option"
  p_units :: "string option"

record location =
  l_name :: "string option"
  l_latitude :: "string option"
  l_longitude :: "string option"

record time_layout =
  tl_key :: "string option"
  tl_coordinate :: "string option"
  tl_summarization :: "string option"
  tl_periods :: "(string option \<times> string option) list"

record doc =
  locations :: "location list"
  time_layouts :: "(string option, time_layout) dict"
  parameters :: "parameter list"

text \<open>
  \<^verbatim>\<open>DwmlDoc.parameter\<close>: \<^verbatim>\<open>next(p for p in self.parameters if p.name == name)\<close>, which
  raises StopIteration when the generator is exhausted.
\<close>

definition parameter :: "doc \<Rightarrow> string \<Rightarrow> error + parameter" where
  "parameter d name =
     (case filter (\<lambda>p. p_name p = Some name) (parameters d) of
        [] \<Rightarrow> Inl StopIteration
      | p # _ \<Rightarrow> Inr p)"

section \<open>The parser (\<^verbatim>\<open>DwmlParser\<close>)\<close>

text \<open>
  \<^verbatim>\<open>ElementTree.fromstring\<close> is the standard library's XML reader; the model starts from
  the element tree it returns: a tag, the attributes, the text (\<^verbatim>\<open>None\<close> for an element
  without text) and the children in document order.
\<close>

datatype element =
  Element (e_tag: string) (e_attrib: "(string, string) dict") (e_text: "string option")
    (e_children: "element list")

text \<open>\<^verbatim>\<open>tree.getiterator(t)\<close>: the element and its descendants, in document order, with tag \<open>t\<close>.\<close>

fun iter_all :: "element \<Rightarrow> element list" where
  "iter_all (Element t a x cs) = Element t a x cs # concat (map iter_all cs)"

definition getiterator :: "element \<Rightarrow> string \<Rightarrow> element list" where
  "getiterator tree t = filter (\<lambda>e. e_tag e = t) (iter_all tree)"

text \<open>\<^verbatim>\<open>tree.find('data/parameters')\<close>: the first \<^verbatim>\<open>parameters\<close> child of a \<^verbatim>\<open>data\<close> child.\<close>

definition find_data_parameters :: "element \<Rightarrow> element option" where
  "find_data_parameters tree =
     (case concat (map (\<lambda>d. filter (\<lambda>p. e_tag p = ''parameters'') (e_children d))
                   (filter (\<lambda>d. e_tag d = ''data'') (e_children tree))) of
        [] \<Rightarrow> None
      | p # _ \<Rightarrow> Some p)"

definition location_child :: "location \<Rightarrow> element \<Rightarrow> location" where
  "location_child l child =
     (let l1 = (if e_tag child = ''location-key'' then l\<lparr>l_name := e_text child\<rparr> else l)
      in if e_tag child = ''point'' then
           (let l2 = (case map_of (e_attrib child) ''latitude'' of
                        None \<Rightarrow> l1 | Some v \<Rightarrow> l1\<lparr>l_latitude := Some v\<rparr>)
            in case map_of (e_attrib child) ''longitude'' of
                 None \<Rightarrow> l2 | Some v \<Rightarrow> l2\<lparr>l_longitude := Some v\<rparr>)
         else l1)"

definition parse_locations :: "element \<Rightarrow> location list" where
  "parse_locations tree =
     map (\<lambda>loc. foldl location_child
                  \<lparr>l_name = None, l_latitude = None, l_longitude = None\<rparr> (e_children loc))
       (getiterator tree ''location'')"

text \<open>
  One child of a \<^verbatim>\<open>time-layout\<close>: \<^verbatim>\<open>layout-key\<close> sets the key, \<^verbatim>\<open>start-valid-time\<close>
  appends a period \<^verbatim>\<open>[text, None]\<close>, \<^verbatim>\<open>end-valid-time\<close> writes the end of the last period
  (\<^verbatim>\<open>periods[len(periods)-1][1] = child.text\<close>, an IndexError on the empty list).
\<close>

definition layout_child ::
  "string option \<times> (string option \<times> string option) list \<Rightarrow> element \<Rightarrow>
   error + (string option \<times> (string option \<times> string option) list)" where
  "layout_child kp child =
     (let key = (if e_tag child = ''layout-key'' then e_text child else fst kp);
          periods = (if e_tag child = ''start-valid-time''
                     then snd kp @ [(e_text child, None)] else snd kp)
      in if e_tag child = ''end-valid-time'' then
           (if periods = [] then Inl IndexError
            else Inr (key, periods[length periods - 1 :=
                             (fst (periods ! (length periods - 1)), e_text child)]))
         else Inr (key, periods))"

fun layout_children ::
  "string option \<times> (string option \<times> string option) list \<Rightarrow> element list \<Rightarrow>
   error + (string option \<times> (string option \<times> string option) list)" where
  "layout_children kp [] = Inr kp"
| "layout_children kp (child # cs) =
     (case layout_child kp child of Inl e \<Rightarrow> Inl e | Inr kp' \<Rightarrow> layout_children kp' cs)"

fun time_layouts_loop ::
  "element list \<Rightarrow> (string option, time_layout) dict \<Rightarrow> error + (string option, time_layout) dict"
  where
  "time_layouts_loop [] tls = Inr tls"
| "time_layouts_loop (layout # rest) tls =
     (case layout_children (None, []) (e_children layout) of
        Inl e \<Rightarrow> Inl e
      | Inr (key, periods) \<Rightarrow>
          time_layouts_loop rest
            (AList.update key
               \<lparr>tl_key = key, tl_coordinate = map_of (e_attrib layout) ''time-coordinate'',
                tl_summarization = map_of (e_attrib layout) ''summarization'',
                tl_periods = periods\<rparr> tls))"

definition parse_time_layouts :: "element \<Rightarrow> error + (string option, time_layout) dict" where
  "parse_time_layouts tree = time_layouts_loop (getiterator tree ''time-layout'') []"

text \<open>\<^verbatim>\<open>"{}".format(x)\<close> of an attribute that may be missing, and \<^verbatim>\<open>DwmlParser.format_weather\<close>.\<close>

fun fmt :: "string option \<Rightarrow> string" where
  "fmt None = ''None''"
| "fmt (Some s) = s"

definition dwml_format_weather ::
  "string option \<Rightarrow> string option \<Rightarrow> string option \<Rightarrow> string option \<Rightarrow> string" where
  "dwml_format_weather coverage intensity weather_type qualifier =
     ''|coverage:'' @ fmt coverage @ ''|intensity:'' @ fmt intensity @
     ''|weather-type:'' @ fmt weather_type @ ''|qualifier:'' @ fmt qualifier"

definition weather_conditions_value :: "element \<Rightarrow> string" where
  "weather_conditions_value child =
     foldl (\<lambda>v grand.
              if e_tag grand = ''value'' then
                v @ dwml_format_weather (map_of (e_attrib grand) ''coverage'')
                      (map_of (e_attrib grand) ''intensity'')
                      (map_of (e_attrib grand) ''weather-type'')
                      (map_of (e_attrib grand) ''qualifier'')
              else v)
       [] (e_children child)"

text \<open>One child of a parameter element: the state is the name and the raw values so far.\<close>

definition parameter_child ::
  "string option \<times> string option list \<Rightarrow> element \<Rightarrow> string option \<times> string option list" where
  "parameter_child nv child =
     (let name = (if e_tag child = ''name'' then e_text child else fst nv)
      in if e_tag child = ''value'' \<or> e_tag child = ''icon-link'' then
           (name, snd nv @ [e_text child])
         else if e_tag child = ''weather-conditions'' then
           (name, snd nv @ [Some (weather_conditions_value child)])
         else (name, snd nv))"

definition raw_values :: "element \<Rightarrow> string option list" where
  "raw_values p = snd (foldl parameter_child (None, []) (e_children p))"

text \<open>
  \<^verbatim>\<open>dateutil.parser.isoparse\<close> is a parameter of the parser: \<open>isoparse s = None\<close> when the
  library rejects the string. Called on \<^verbatim>\<open>None\<close> it raises as well.
\<close>

definition parse_instant :: "(string \<Rightarrow> datetime option) \<Rightarrow> string option \<Rightarrow> error + datetime"
  where
  "parse_instant isoparse s =
     (case s of
        None \<Rightarrow> Inl TypeError
      | Some x \<Rightarrow> (case isoparse x of None \<Rightarrow> Inl ValueError | Some dt \<Rightarrow> Inr dt))"

text \<open>
  The loop over \<^verbatim>\<open>zip(values, periods)\<close>: it stops at the end of the shorter list. The end
  of a period is parsed only when it is a non-empty string.
\<close>

fun zip_values ::
  "(string \<Rightarrow> datetime option) \<Rightarrow> string option list \<Rightarrow>
   (string option \<times> string option) list \<Rightarrow> error + pvalue list" where
  "zip_values isoparse (v # vs) (period # ps) =
     (case parse_instant isoparse (fst period) of
        Inl e \<Rightarrow> Inl e
      | Inr st \<Rightarrow>
          (case (if snd period = None \<or> snd period = Some []
                 then Inr None
                 else (case parse_instant isoparse (snd period) of
                         Inl e \<Rightarrow> Inl e | Inr en \<Rightarrow> Inr (Some en))) of
             Inl e \<Rightarrow> Inl e
           | Inr en \<Rightarrow>
               (case zip_values isoparse vs ps of
                  Inl e \<Rightarrow> Inl e
                | Inr pvs \<Rightarrow> Inr (\<lparr>pv_value = v, pv_start = st, pv_end = en\<rparr> # pvs))))"
| "zip_values isoparse vs ps = Inr []"

definition parse_parameter ::
  "(string \<Rightarrow> datetime option) \<Rightarrow> (string option, time_layout) dict \<Rightarrow> element \<Rightarrow>
   error + parameter" where
  "parse_parameter isoparse tls p =
     (let nv = foldl parameter_child (None, []) (e_children p);
          time_layout_key = map_of (e_attrib p) ''time-layout''
      in case map_of tls time_layout_key of
           None \<Rightarrow> Inl KeyError
         | Some layout \<Rightarrow>
             (case zip_values isoparse (snd nv) (tl_periods layout) of
                Inl e \<Rightarrow> Inl e
              | Inr pvalues \<Rightarrow>
                  Inr \<lparr>p_tag = e_tag p, p_name = fst nv, p_time_layout_key = time_layout_key,
                       p_values = pvalues, p_typ = map_of (e_attrib p) ''type'',
                       p_units = map_of (e_attrib p) ''units''\<rparr>))"

fun parameters_loop ::
  "(string \<Rightarrow> datetime option) \<Rightarrow> (string option, time_layout) dict \<Rightarrow> element list \<Rightarrow>
   error + parameter list" where
  "parameters_loop isoparse tls [] = Inr []"
| "parameters_loop isoparse tls (p # ps) =
     (case parse_parameter isoparse tls p of
        Inl e \<Rightarrow> Inl e
      | Inr par \<Rightarrow>
          (case parameters_loop isoparse tls ps of
             Inl e \<Rightarrow> Inl e
           | Inr pars \<Rightarrow> Inr (par # pars)))"

definition parse_parameters ::
  "(string \<Rightarrow> datetime option) \<Rightarrow> element \<Rightarrow> (string option, time_layout) dict \<Rightarrow>
   error + parameter list" where
  "parse_parameters isoparse tree tls =
     (case find_data_parameters tree of
        None \<Rightarrow> Inl AttributeError
      | Some container \<Rightarrow> parameters_loop isoparse tls (e_children container))"

text \<open>\<^verbatim>\<open>DwmlParser.parse\<close>, from the element tree on.\<close>

definition parse_tree :: "(string \<Rightarrow> datetime option) \<Rightarrow> element \<Rightarrow> error + doc" where
  "parse_tree isoparse tree =
     (let locs = parse_locations tree
      in case parse_time_layouts tree of
           Inl e \<Rightarrow> Inl e
         | Inr tls \<Rightarrow>
             (case parse_parameters isoparse tree tls of
                Inl e \<Rightarrow> Inl e
              | Inr pars \<Rightarrow>
                  Inr \<lparr>locations = locs, time_layouts = tls, parameters = pars\<rparr>))"

section \<open>Skip policies and formatters (\<^verbatim>\<open>ForecastParser\<close>)\<close>

text \<open>
  \<^verbatim>\<open>_is_night\<close>: before 06:00:00 or after 18:00:00. The skip functions take a
  \<^verbatim>\<open>DwmlParameterValue\<close>; those that read \<^verbatim>\<open>value.end.date()\<close> raise AttributeError on a
  value without end, and \<^verbatim>\<open>len(value.value)\<close> raises TypeError on \<^verbatim>\<open>None\<close>.
\<close>

definition is_night :: "nat \<times> nat \<times> nat \<times> nat \<Rightarrow> bool" where
  "is_night t = (time_less t (6, 0, 0, 0) \<or> time_less (18, 0, 0, 0) t)"

definition skip_night :: "pvalue \<Rightarrow> error + bool" where
  "skip_night v = Inr (is_night (time_of (pv_start v)))"

definition skip_different_startend_date :: "pvalue \<Rightarrow> error + bool" where
  "skip_different_startend_date v =
     (case pv_end v of
        None \<Rightarrow> Inl AttributeError
      | Some e \<Rightarrow> Inr (date_of (pv_start v) \<noteq> date_of e))"

definition skip_same_startend_date :: "pvalue \<Rightarrow> error + bool" where
  "skip_same_startend_date v =
     (case pv_end v of
        None \<Rightarrow> Inl AttributeError
      | Some e \<Rightarrow> Inr (date_of (pv_start v) = date_of e))"

definition skip_empty_value :: "pvalue \<Rightarrow> error + bool" where
  "skip_empty_value v =
     (case pv_value v of None \<Rightarrow> Inl TypeError | Some s \<Rightarrow> Inr (length s = 0))"

text \<open>
  \<^verbatim>\<open>_symbol_from_link\<close>: \<^verbatim>\<open>None\<close> for a falsy link, else the part after the last slash, or
  \<^verbatim>\<open>None\<close> when the link has no slash. (\<^verbatim>\<open>'/' in link\<close> raises on a number.)
\<close>

definition symbol_from_link :: "'f numerics \<Rightarrow> 'f pyval \<Rightarrow> error + 'f pyval" where
  "symbol_from_link N link =
     (if \<not> truthy N link then Inr PNone
      else (case link of
              PStr s \<Rightarrow>
                Inr (if CHR ''/'' \<in> set s then PStr (last (split_on CHR ''/'' s)) else PNone)
            | _ \<Rightarrow> Inl TypeError))"

definition is_night_symbol :: "string \<Rightarrow> bool" where
  "is_night_symbol symbol =
     (case symbol of [] \<Rightarrow> False | c # _ \<Rightarrow> c = CHR ''n'')"

definition skip_night_symbol :: "'f numerics \<Rightarrow> pvalue \<Rightarrow> error + bool" where
  "skip_night_symbol N parameter_value =
     (let link = raw (pv_value parameter_value)
      in if \<not> truthy N link then Inr False
         else (case symbol_from_link N link of
                 Inl e \<Rightarrow> Inl e
               | Inr symbol \<Rightarrow>
                   (case symbol of
                      PStr s \<Rightarrow> Inr (if s = [] then False else is_night_symbol s)
                    | _ \<Rightarrow> Inr False)))"

definition format_symbol :: "'f numerics \<Rightarrow> 'f pyval \<Rightarrow> error + 'f pyval" where
  "format_symbol N v = symbol_from_link N v"

text \<open>\<^verbatim>\<open>_format_wind\<close>: \<^verbatim>\<open>int(float(knots) * 1.15077945) if knots else None\<close>.\<close>

definition format_wind :: "'f numerics \<Rightarrow> 'f pyval \<Rightarrow> error + 'f pyval" where
  "format_wind N knots =
     (if truthy N knots then
        (case py_float N knots of
           Inl e \<Rightarrow> Inl e
         | Inr f \<Rightarrow>
             (case fl_trunc N (fl_mul N f (fl_mph N)) of
                Inl e \<Rightarrow> Inl e
              | Inr i \<Rightarrow> Inr (PInt i)))
      else Inr PNone)"

text \<open>
  \<^verbatim>\<open>_format_weather\<close>. The body of its \<^verbatim>\<open>try\<close> is \<open>format_weather_body\<close>: \<^verbatim>\<open>split\<close>
  raises AttributeError on a value that is no string, and each \<^verbatim>\<open>[i]\<close> raises IndexError
  out of range. The bare \<^verbatim>\<open>except:\<close> turns every exception into the empty string.
\<close>

definition format_weather_body :: "'f pyval \<Rightarrow> error + string" where
  "format_weather_body weather_line =
     (case weather_line of
        PStr s \<Rightarrow>
          (let elements = split_on CHR ''|'' s in
           and_then (item elements 1) (\<lambda>coverage_element.
           and_then (item elements 2) (\<lambda>intensity_element.
           and_then (item elements 3) (\<lambda>weather_type_element.
           and_then (item (split_on CHR '':'' coverage_element) 1) (\<lambda>coverage.
           and_then (item (split_on CHR '':'' intensity_element) 1) (\<lambda>itmp1.
           let intensity = (if itmp1 = ''none'' then [] else itmp1) in
           and_then (item (split_on CHR '':'' weather_type_element) 1) (\<lambda>weather.
           Inr (if coverage = ''likely'' then
                  intensity @ '' '' @ weather @ '' '' @ coverage
                else if coverage = ''chance'' \<or> coverage = ''slight chance'' then
                  coverage @ '' of '' @ intensity @ '' '' @ weather
                else if coverage = ''definitely'' then
                  intensity @ '' '' @ weather
                else coverage @ '' '' @ intensity @ '' '' @ weather))))))))
      | _ \<Rightarrow> Inl AttributeError)"

definition format_weather :: "'f pyval \<Rightarrow> 'f pyval" where
  "format_weather weather_line =
     (case format_weather_body weather_line of Inl e \<Rightarrow> PStr [] | Inr s \<Rightarrow> PStr s)"

section \<open>The aggregator\<close>

text \<open>
  \<^verbatim>\<open>_most_frequent\<close>. The frequency table \<^verbatim>\<open>counts\<close> is a dict, so it lists the values in
  the order they were first met. The scan keeps \<^verbatim>\<open>val\<close> and \<^verbatim>\<open>maxCount\<close>; \<^verbatim>\<open>val\<close> is also
  the variable of the first loop, so before the scan it is the last element of
  \<^verbatim>\<open>values\<close>, and unbound when \<^verbatim>\<open>values\<close> is empty.
\<close>

definition count_val :: "('a, nat) dict \<Rightarrow> 'a \<Rightarrow> ('a, nat) dict" where
  "count_val counts val =
     (let counts1 = (if map_of counts val = None then AList.update val 0 counts else counts)
      in case map_of counts1 val of
           None \<Rightarrow> counts1
         | Some c \<Rightarrow> AList.update val (c + 1) counts1)"

fun scan_counts :: "('a, nat) dict \<Rightarrow> 'a option \<Rightarrow> nat \<Rightarrow> 'a option" where
  "scan_counts [] val maxCount = val"
| "scan_counts ((k, v) # kvs) val maxCount =
     (if v > maxCount then scan_counts kvs (Some k) v else scan_counts kvs val maxCount)"

definition most_frequent :: "'a list \<Rightarrow> error + 'a" where
  "most_frequent values =
     (let counts = foldl count_val [] values;
          val0 = (if values = [] then None else Some (last values))
      in case scan_counts counts val0 0 of
           None \<Rightarrow> Inl UnboundLocalError
         | Some val \<Rightarrow> Inr val)"

text \<open>The values of a list in the order they are first met (the keys of \<^verbatim>\<open>counts\<close>).\<close>

definition first_seen :: "'a list \<Rightarrow> 'a list" where
  "first_seen xs = rev (remdups (rev xs))"

text \<open>\<^verbatim>\<open>_first_nonempty\<close>: the first value with \<^verbatim>\<open>len(str(v)) > 0\<close>, else \<^verbatim>\<open>None\<close>.\<close>

definition first_nonempty :: "'f pyval list \<Rightarrow> 'f pyval" where
  "first_nonempty values =
     (case filter str_nonempty values of [] \<Rightarrow> PNone | v # _ \<Rightarrow> v)"

text \<open>
  The built-ins \<^verbatim>\<open>sum\<close>, \<^verbatim>\<open>/\<close>, \<^verbatim>\<open>max\<close>, \<^verbatim>\<open>min\<close> and \<^verbatim>\<open>round\<close> on the values of the model.
  \<^verbatim>\<open>sum\<close> starts from the integer 0; \<^verbatim>\<open>max\<close> and \<^verbatim>\<open>min\<close> keep the first extreme element;
  operands of unrelated types raise TypeError.
\<close>

fun py_add :: "'f numerics \<Rightarrow> 'f pyval \<Rightarrow> 'f pyval \<Rightarrow> error + 'f pyval" where
  "py_add N (PInt a) (PInt b) = Inr (PInt (a + b))"
| "py_add N (PInt a) (PFloat b) = Inr (PFloat (fl_add N (fl_of_int N a) b))"
| "py_add N (PFloat a) (PInt b) = Inr (PFloat (fl_add N a (fl_of_int N b)))"
| "py_add N (PFloat a) (PFloat b) = Inr (PFloat (fl_add N a b))"
| "py_add N (PStr a) (PStr b) = Inr (PStr (a @ b))"
| "py_add N a b = Inl TypeError"

fun py_sum_from :: "'f numerics \<Rightarrow> 'f pyval \<Rightarrow> 'f pyval list \<Rightarrow> error + 'f pyval" where
  "py_sum_from N acc [] = Inr acc"
| "py_sum_from N acc (v # vs) =
     (case py_add N acc v of Inl e \<Rightarrow> Inl e | Inr acc' \<Rightarrow> py_sum_from N acc' vs)"

definition py_sum :: "'f numerics \<Rightarrow> 'f pyval list \<Rightarrow> error + 'f pyval" where
  "py_sum N values = py_sum_from N (PInt 0) values"

fun py_truediv :: "'f numerics \<Rightarrow> 'f pyval \<Rightarrow> nat \<Rightarrow> error + 'f pyval" where
  "py_truediv N (PInt a) n =
     (if n = 0 then Inl ZeroDivisionError
      else Inr (PFloat (fl_div N (fl_of_int N a) (fl_of_int N (int n)))))"
| "py_truediv N (PFloat a) n =
     (if n = 0 then Inl ZeroDivisionError
      else Inr (PFloat (fl_div N a (fl_of_int N (int n)))))"
| "py_truediv N v n = Inl TypeError"

fun py_less :: "'f numerics \<Rightarrow> 'f pyval \<Rightarrow> 'f pyval \<Rightarrow> error + bool" where
  "py_less N (PInt a) (PInt b) = Inr (a < b)"
| "py_less N (PInt a) (PFloat b) = Inr (fl_less N (fl_of_int N a) b)"
| "py_less N (PFloat a) (PInt b) = Inr (fl_less N a (fl_of_int N b))"
| "py_less N (PFloat a) (PFloat b) = Inr (fl_less N a b)"
| "py_less N (PStr a) (PStr b) = Inr (a < b)"
| "py_less N a b = Inl TypeError"

fun py_max_from :: "'f numerics \<Rightarrow> 'f pyval \<Rightarrow> 'f pyval list \<Rightarrow> error + 'f pyval" where
  "py_max_from N cur [] = Inr cur"
| "py_max_from N cur (v # vs) =
     (case py_less N cur v of
        Inl e \<Rightarrow> Inl e
      | Inr b \<Rightarrow> py_max_from N (if b then v else cur) vs)"

fun py_min_from :: "'f numerics \<Rightarrow> 'f pyval \<Rightarrow> 'f pyval list \<Rightarrow> error + 'f pyval" where
  "py_min_from N cur [] = Inr cur"
| "py_min_from N cur (v # vs) =
     (case py_less N v cur of
        Inl e \<Rightarrow> Inl e
      | Inr b \<Rightarrow> py_min_from N (if b then v else cur) vs)"

definition py_max :: "'f numerics \<Rightarrow> 'f pyval list \<Rightarrow> error + 'f pyval" where
  "py_max N values = (case values of [] \<Rightarrow> Inl ValueError | v # vs \<Rightarrow> py_max_from N v vs)"

definition py_min :: "'f numerics \<Rightarrow> 'f pyval list \<Rightarrow> error + 'f pyval" where
  "py_min N values = (case values of [] \<Rightarrow> Inl ValueError | v # vs \<Rightarrow> py_min_from N v vs)"

definition round_int :: "int \<Rightarrow> int \<Rightarrow> int" where
  "round_int i d =
     (if d \<ge> 0 then i
      else (let m = 10 ^ nat (- d); q = i div m; r = i mod m
            in if 2 * r < m then q * m
               else if 2 * r > m then (q + 1) * m
               else if even q then q * m else (q + 1) * m))"

fun py_round :: "'f numerics \<Rightarrow> 'f pyval \<Rightarrow> int \<Rightarrow> error + 'f pyval" where
  "py_round N (PFloat f) d = Inr (PFloat (fl_round N f d))"
| "py_round N (PInt i) d = Inr (PInt (round_int i d))"
| "py_round N v d = Inl TypeError"

text \<open>The \<^verbatim>\<open>if function == ...: ... elif ...\<close> chain of \<^verbatim>\<open>_aggregate\<close>.\<close>

definition apply_function :: "'f numerics \<Rightarrow> string \<Rightarrow> 'f pyval list \<Rightarrow> error + 'f pyval" where
  "apply_function N function values =
     (if function = ''average'' then
        (case py_sum N values of
           Inl e \<Rightarrow> Inl e
         | Inr s \<Rightarrow> py_truediv N s (length values))
      else if function = ''sum'' then py_sum N values
      else if function = ''max'' then py_max N values
      else if function = ''min'' then py_min N values
      else if function = ''first'' then item values 0
      else if function = ''first-nonempty'' then Inr (first_nonempty values)
      else if function = ''frequent'' then most_frequent values
      else item values 0)"

text \<open>
  The first loop of \<^verbatim>\<open>_aggregate\<close> fills \<^verbatim>\<open>indexed_values\<close>, a dict from the start date
  to the list of the values kept for it. A value is dropped when it is falsy and
  \<^verbatim>\<open>is_numeric\<close> holds, or when the skipper says so; the skipper is only called on
  values that pass the first test.
\<close>

fun index_values ::
  "'f numerics \<Rightarrow> bool \<Rightarrow> (pvalue \<Rightarrow> error + bool) option \<Rightarrow> pvalue list \<Rightarrow>
   (string, 'f pyval list) dict \<Rightarrow> error + (string, 'f pyval list) dict" where
  "index_values N is_numeric skipper [] indexed_values = Inr indexed_values"
| "index_values N is_numeric skipper (v # vs) indexed_values =
     (if is_numeric \<and> \<not> truthy N (raw (pv_value v)) then
        index_values N is_numeric skipper vs indexed_values
      else
        (case (case skipper of None \<Rightarrow> Inr False | Some sk \<Rightarrow> sk v) of
           Inl e \<Rightarrow> Inl e
         | Inr skip \<Rightarrow>
             if skip then index_values N is_numeric skipper vs indexed_values
             else
               (let start_date = strftime_date (pv_start v);
                    indexed1 = (if \<not> has_key indexed_values start_date
                                then AList.update start_date [] indexed_values
                                else indexed_values)
                in case (if is_numeric \<and> str_nonempty (raw (pv_value v) :: 'f pyval)
                         then (case py_float N (raw (pv_value v)) of
                                 Inl e \<Rightarrow> Inl e | Inr f \<Rightarrow> Inr (PFloat f))
                         else Inr (raw (pv_value v))) of
                     Inl e \<Rightarrow> Inl e
                   | Inr value \<Rightarrow>
                       (case map_of indexed1 start_date of
                          None \<Rightarrow> Inl KeyError
                        | Some l \<Rightarrow>
                            index_values N is_numeric skipper vs
                              (AList.update start_date (l @ [value]) indexed1)))))"

text \<open>
  The second loop, over \<^verbatim>\<open>indexed_values.items()\<close>: a date with fewer than \<^verbatim>\<open>min_values\<close>
  values is passed over; the others get the reduced, rounded and formatted value.
\<close>

fun reduce_dates ::
  "'f numerics \<Rightarrow> string \<Rightarrow> bool \<Rightarrow> int \<Rightarrow> ('f pyval \<Rightarrow> error + 'f pyval) option \<Rightarrow>
   int option \<Rightarrow> (string \<times> 'f pyval list) list \<Rightarrow> (string, 'f pyval) dict \<Rightarrow>
   error + (string, 'f pyval) dict" where
  "reduce_dates N function is_numeric decimal formatter min_values [] data = Inr data"
| "reduce_dates N function is_numeric decimal formatter min_values ((date, values) # rest) data =
     (if (case min_values of None \<Rightarrow> False
          | Some m \<Rightarrow> m \<noteq> 0 \<and> int (length values) < m) then
        reduce_dates N function is_numeric decimal formatter min_values rest data
      else
        (case apply_function N function values of
           Inl e \<Rightarrow> Inl e
         | Inr value \<Rightarrow>
             (case (if is_numeric then
                      (if decimal = 0 then
                         (case py_int N value of Inl e \<Rightarrow> Inl e | Inr i \<Rightarrow> Inr (PInt i))
                       else py_round N value decimal)
                    else Inr value) of
                Inl e \<Rightarrow> Inl e
              | Inr value1 \<Rightarrow>
                  (case (case formatter of None \<Rightarrow> Inr value1 | Some f \<Rightarrow> f value1) of
                     Inl e \<Rightarrow> Inl e
                   | Inr value2 \<Rightarrow>
                       reduce_dates N function is_numeric decimal formatter min_values rest
                         (AList.update date value2 data)))))"

definition aggregate ::
  "'f numerics \<Rightarrow> pvalue list \<Rightarrow> string \<Rightarrow> bool \<Rightarrow> int \<Rightarrow>
   (pvalue \<Rightarrow> error + bool) option \<Rightarrow> ('f pyval \<Rightarrow> error + 'f pyval) option \<Rightarrow>
   int option \<Rightarrow> error + (string, 'f pyval) dict" where
  "aggregate N values function is_numeric decimal skipper formatter min_values =
     (case index_values N is_numeric skipper values [] of
        Inl e \<Rightarrow> Inl e
      | Inr indexed_values \<Rightarrow>
          reduce_dates N function is_numeric decimal formatter min_values indexed_values [])"

text \<open>\<^verbatim>\<open>_single\<close>: date, then time, to the (formatted) raw value.\<close>

fun single ::
  "('f pyval \<Rightarrow> error + 'f pyval) option \<Rightarrow> pvalue list \<Rightarrow>
   (string, (string, 'f pyval) dict) dict \<Rightarrow> error + (string, (string, 'f pyval) dict) dict"
  where
  "single formatter [] data = Inr data"
| "single formatter (v # vs) data =
     (let start_date = strftime_date (pv_start v);
          start_time = strftime_time (pv_start v);
          data1 = (if \<not> has_key data start_date then AList.update start_date [] data else data)
      in case (case formatter of None \<Rightarrow> Inr (raw (pv_value v))
               | Some f \<Rightarrow> f (raw (pv_value v))) of
           Inl e \<Rightarrow> Inl e
         | Inr value \<Rightarrow>
             (case map_of data1 start_date of
                None \<Rightarrow> Inl KeyError
              | Some tms \<Rightarrow>
                  single formatter vs
                    (AList.update start_date (AList.update start_time value tms) data1)))"

section \<open>The forecast assembler\<close>

type_synonym 'f slot = "(string, 'f pyval) dict"
type_synonym 'f times = "(string, 'f slot) dict"
type_synonym 'f hourly = "(string, 'f times) dict"
type_synonym 'f daily = "(string, (string, 'f pyval) dict) dict"

text \<open>\<^verbatim>\<open>_combine_daily\<close> and \<^verbatim>\<open>_combine_hourly\<close>: the loops over the keys of \<^verbatim>\<open>additional\<close>.\<close>

definition get_or_empty :: "('k, ('a \<times> 'b) list) dict \<Rightarrow> 'k \<Rightarrow> ('a \<times> 'b) list" where
  "get_or_empty d k = (case map_of d k of None \<Rightarrow> [] | Some x \<Rightarrow> x)"

definition combine_daily :: "'f daily \<Rightarrow> string \<Rightarrow> (string, 'f pyval) dict \<Rightarrow> 'f daily" where
  "combine_daily daily0 code additional =
     foldl (\<lambda>d (start_date, value).
              AList.update start_date (AList.update code value (get_or_empty d start_date)) d)
       daily0 additional"

definition combine_times :: "'f times \<Rightarrow> string \<Rightarrow> (string, 'f pyval) dict \<Rightarrow> 'f times" where
  "combine_times times0 code additional =
     foldl (\<lambda>t (start_time, value).
              AList.update start_time (AList.update code value (get_or_empty t start_time)) t)
       times0 additional"

definition combine_hourly ::
  "'f hourly \<Rightarrow> string \<Rightarrow> (string, (string, 'f pyval) dict) dict \<Rightarrow> 'f hourly" where
  "combine_hourly hourly0 code additional =
     foldl (\<lambda>h (start_date, tms).
              AList.update start_date (combine_times (get_or_empty h start_date) code tms) h)
       hourly0 additional"

text \<open>
  \<^verbatim>\<open>_daily_low\<close>. The first loop stores each daily minimum under its end date
  (\<^verbatim>\<open>day.end.strftime\<close> raises on a value without end). The second loop compares each
  hourly value with the stored one, at the start date and, when the sample has an end,
  at the end date; \<^verbatim>\<open>int\<close> is only called when the date is a key of \<^verbatim>\<open>data\<close>.
\<close>

fun seed_lows ::
  "pvalue list \<Rightarrow> (string, 'f pyval) dict \<Rightarrow> error + (string, 'f pyval) dict" where
  "seed_lows [] data = Inr data"
| "seed_lows (day # days) data =
     (case pv_end day of
        None \<Rightarrow> Inl AttributeError
      | Some e \<Rightarrow> seed_lows days (AList.update (strftime_date e) (raw (pv_value day)) data))"

definition lower_at ::
  "'f numerics \<Rightarrow> 'f pyval \<Rightarrow> string \<Rightarrow> (string, 'f pyval) dict \<Rightarrow>
   error + (string, 'f pyval) dict" where
  "lower_at N value date data =
     (case map_of data date of
        None \<Rightarrow> Inr data
      | Some stored \<Rightarrow>
          (case py_int N value of
             Inl e \<Rightarrow> Inl e
           | Inr h \<Rightarrow>
               (case py_int N stored of
                  Inl e \<Rightarrow> Inl e
                | Inr s \<Rightarrow> Inr (if h < s then AList.update date value data else data))))"

definition low_hour ::
  "'f numerics \<Rightarrow> pvalue \<Rightarrow> (string, 'f pyval) dict \<Rightarrow> error + (string, 'f pyval) dict" where
  "low_hour N hour data =
     (case lower_at N (raw (pv_value hour)) (strftime_date (pv_start hour)) data of
        Inl e \<Rightarrow> Inl e
      | Inr data1 \<Rightarrow>
          (case pv_end hour of
             None \<Rightarrow> Inr data1
           | Some e \<Rightarrow> lower_at N (raw (pv_value hour)) (strftime_date e) data1))"

fun low_hours ::
  "'f numerics \<Rightarrow> pvalue list \<Rightarrow> (string, 'f pyval) dict \<Rightarrow> error + (string, 'f pyval) dict"
  where
  "low_hours N [] data = Inr data"
| "low_hours N (hour # hours) data =
     (case low_hour N hour data of Inl e \<Rightarrow> Inl e | Inr data1 \<Rightarrow> low_hours N hours data1)"

definition daily_low ::
  "'f numerics \<Rightarrow> pvalue list \<Rightarrow> pvalue list \<Rightarrow> error + (string, 'f pyval) dict" where
  "daily_low N dailies hourlies =
     (case seed_lows dailies [] of
        Inl e \<Rightarrow> Inl e
      | Inr data \<Rightarrow> low_hours N hourlies data)"

text \<open>\<^verbatim>\<open>codes\<close> and the inverted \<^verbatim>\<open>code_map\<close>; \<^verbatim>\<open>doc.parameter(code_map[c]).values\<close>.\<close>

definition codes :: "(string, string) dict" where
  "codes =
     [(''Daily Maximum Temperature'', ''maxt''),
      (''Daily Minimum Temperature'', ''mint''),
      (''12 Hourly Probability of Precipitation'', ''pop12''),
      (''Temperature'', ''temp''),
      (''Dew Point'', ''td''),
      (''Apparent Temperature'', ''apt''),
      (''Cloud Cover Amount'', ''sky''),
      (''Wind Direction'', ''wdir''),
      (''Wind Speed'', ''wspd''),
      (''Wind Speed Gust'', ''wgust''),
      (''Weather Type, Coverage, and Intensity'', ''wx''),
      (''Liquid Precipitation Amount'', ''qpf''),
      (''Snow Amount'', ''snow''),
      (''Relative Humidity'', ''rhm''),
      (''Conditions Icons'', ''sym'')]"

definition code_map :: "(string, string) dict" where
  "code_map = foldl (\<lambda>m (k, v). AList.update v k m) [] codes"

definition values_of :: "doc \<Rightarrow> string \<Rightarrow> error + pvalue list" where
  "values_of d code =
     (case map_of code_map code of
        None \<Rightarrow> Inl KeyError
      | Some name \<Rightarrow>
          (case parameter d name of Inl e \<Rightarrow> Inl e | Inr p \<Rightarrow> Inr (p_values p)))"

text \<open>\<^verbatim>\<open>_daily\<close>: eleven recipes, one after the other; the first exception ends the assembly.\<close>

definition daily :: "'f numerics \<Rightarrow> doc \<Rightarrow> error + 'f daily" where
  "daily N d =
     and_then (values_of d ''maxt'') (\<lambda>maxt.
     and_then (aggregate N maxt ''first'' True 0 None None None) (\<lambda>a1.
     and_then (values_of d ''mint'') (\<lambda>mint.
     and_then (values_of d ''temp'') (\<lambda>temp.
     and_then (daily_low N mint temp) (\<lambda>a2.
     and_then (values_of d ''pop12'') (\<lambda>pop12.
     and_then (aggregate N pop12 ''first'' True 0
                 (Some skip_different_startend_date) None None) (\<lambda>a3.
     and_then (values_of d ''pop12'') (\<lambda>pop12'.
     and_then (aggregate N pop12' ''first'' True 0
                 (Some skip_same_startend_date) None None) (\<lambda>a4.
     and_then (values_of d ''qpf'') (\<lambda>qpf.
     and_then (aggregate N qpf ''sum'' True 2 (Some skip_empty_value) None (Some 3)) (\<lambda>a5.
     and_then (values_of d ''snow'') (\<lambda>snow.
     and_then (aggregate N snow ''sum'' True 1 (Some skip_empty_value) None (Some 3)) (\<lambda>a6.
     and_then (values_of d ''rhm'') (\<lambda>rhm.
     and_then (aggregate N rhm ''average'' True 0 None None None) (\<lambda>a7.
     and_then (values_of d ''wgust'') (\<lambda>wgust.
     and_then (aggregate N wgust ''max'' True 0 None (Some (format_wind N)) None) (\<lambda>a8.
     and_then (values_of d ''wspd'') (\<lambda>wspd.
     and_then (aggregate N wspd ''average'' True 0 None (Some (format_wind N)) None) (\<lambda>a9.
     and_then (values_of d ''wx'') (\<lambda>wx.
     and_then (aggregate N wx ''first-nonempty'' False 0 (Some skip_night)
                 (Some (\<lambda>v. Inr (format_weather v))) None) (\<lambda>a10.
     and_then (values_of d ''sym'') (\<lambda>sym.
     and_then (aggregate N sym ''frequent'' False 0 (Some (skip_night_symbol N))
                 (Some (format_symbol N)) None) (\<lambda>a11.
     Inr (combine_daily (combine_daily (combine_daily (combine_daily (combine_daily
           (combine_daily (combine_daily (combine_daily (combine_daily (combine_daily
           (combine_daily [] ''high'' a1) ''low'' a2) ''precip_day'' a3) ''precip_night'' a4)
           ''rain_amount'' a5) ''snow_amount'' a6) ''relative_humidity'' a7) ''wind_gust'' a8)
           ''wind_sustained'' a9) ''weather'' a10) ''wsym'' a11))))))))))))))))))))))))"

text \<open>\<^verbatim>\<open>_hourly\<close>: ten calls of \<^verbatim>\<open>_single\<close>.\<close>

definition hourly_of :: "'f numerics \<Rightarrow> doc \<Rightarrow> error + 'f hourly" where
  "hourly_of N d =
     and_then (values_of d ''temp'') (\<lambda>temp.
     and_then (single None temp []) (\<lambda>s1.
     and_then (values_of d ''pop12'') (\<lambda>pop12.
     and_then (single None pop12 []) (\<lambda>s2.
     and_then (values_of d ''rhm'') (\<lambda>rhm.
     and_then (single None rhm []) (\<lambda>s3.
     and_then (values_of d ''qpf'') (\<lambda>qpf.
     and_then (single None qpf []) (\<lambda>s4.
     and_then (values_of d ''snow'') (\<lambda>snow.
     and_then (single None snow []) (\<lambda>s5.
     and_then (values_of d ''wspd'') (\<lambda>wspd.
     and_then (single (Some (format_wind N)) wspd []) (\<lambda>s6.
     and_then (values_of d ''wgust'') (\<lambda>wgust.
     and_then (single (Some (format_wind N)) wgust []) (\<lambda>s7.
     and_then (values_of d ''sky'') (\<lambda>sky.
     and_then (single None sky []) (\<lambda>s8.
     and_then (values_of d ''wx'') (\<lambda>wx.
     and_then (single (Some (\<lambda>v. Inr (format_weather v))) wx []) (\<lambda>s9.
     and_then (values_of d ''sym'') (\<lambda>sym.
     and_then (single (Some (format_symbol N)) sym []) (\<lambda>s10.
     Inr (combine_hourly (combine_hourly (combine_hourly (combine_hourly (combine_hourly
           (combine_hourly (combine_hourly (combine_hourly (combine_hourly
           (combine_hourly [] ''temp'' s1) ''precip'' s2) ''relative_humidity'' s3)
           ''rain_amount'' s4) ''snow_amount'' s5) ''wind_sustained'' s6) ''wind_gust'' s7)
           ''sky'' s8) ''weather'' s9) ''wsym'' s10)))))))))))))))))))))"

section \<open>Post-processing (\<^verbatim>\<open>_cleanup\<close>)\<close>

record 'f forecast =
  fc_daily :: "'f daily"
  fc_hourly :: "'f hourly"

text \<open>
  The three variables carried through the pass: \<^verbatim>\<open>tmpPrecip\<close>, \<^verbatim>\<open>averageRain\<close>,
  \<^verbatim>\<open>averageSnow\<close>, all \<^verbatim>\<open>None\<close> at the start.
\<close>

record 'f carry =
  tmpPrecip :: "'f pyval"
  averageRain :: "'f pyval"
  averageSnow :: "'f pyval"

definition carry0 :: "'f carry" where
  "carry0 = \<lparr>tmpPrecip = PNone, averageRain = PNone, averageSnow = PNone\<rparr>"

text \<open>
  The precipitation step of the loop body, on the dict of one time slot:
  \<^verbatim>\<open>currentPrecip\<close> is the slot's \<^verbatim>\<open>precip\<close> or \<^verbatim>\<open>None\<close>; the slot takes \<^verbatim>\<open>tmpPrecip\<close> when
  that is truthy and \<^verbatim>\<open>currentPrecip\<close> is not; a truthy \<^verbatim>\<open>currentPrecip\<close> becomes \<^verbatim>\<open>tmpPrecip\<close>.
\<close>

definition precip_step :: "'f numerics \<Rightarrow> 'f pyval \<Rightarrow> 'f slot \<Rightarrow> 'f pyval \<times> 'f slot" where
  "precip_step N tmp slot =
     (let currentPrecip = (case map_of slot ''precip'' of None \<Rightarrow> PNone | Some v \<Rightarrow> v);
          slot1 = (if truthy N tmp \<and> \<not> truthy N currentPrecip
                   then AList.update ''precip'' tmp slot else slot);
          tmp1 = (if truthy N currentPrecip then currentPrecip else tmp)
      in (tmp1, slot1))"

text \<open>
  The rain step and the snow step are the same statements on \<^verbatim>\<open>rain_amount\<close> with
  \<^verbatim>\<open>averageRain\<close> and on \<^verbatim>\<open>snow_amount\<close> with \<^verbatim>\<open>averageSnow\<close>; \<open>amount_step\<close> is that
  block for the field \<open>field\<close> and the carried average \<open>avg\<close>:
  \<^verbatim>\<open>
  if field in slot and slot[field]:
      avg = round(float(slot[field])/2,2)
      slot[field] = avg
  else:
      if avg != 0:
          slot[field] = avg
      avg = 0
  \<close>
\<close>

definition amount_step ::
  "'f numerics \<Rightarrow> string \<Rightarrow> 'f pyval \<Rightarrow> 'f slot \<Rightarrow> error + ('f pyval \<times> 'f slot)" where
  "amount_step N field avg slot =
     (if (case map_of slot field of None \<Rightarrow> False | Some v \<Rightarrow> truthy N v) then
        (case (case map_of slot field of None \<Rightarrow> Inl KeyError | Some v \<Rightarrow> py_float N v) of
           Inl e \<Rightarrow> Inl e
         | Inr f \<Rightarrow>
             (let avg1 = PFloat (fl_round N (fl_div N f (fl_of_int N 2)) 2)
              in Inr (avg1, AList.update field avg1 slot)))
      else
        Inr (PInt 0, if ne_zero N avg then AList.update field avg slot else slot))"

definition cleanup_slot ::
  "'f numerics \<Rightarrow> 'f carry \<Rightarrow> 'f slot \<Rightarrow> error + ('f carry \<times> 'f slot)" where
  "cleanup_slot N c slot =
     (case precip_step N (tmpPrecip c) slot of
        (tmp1, slot1) \<Rightarrow>
          (case amount_step N ''rain_amount'' (averageRain c) slot1 of
             Inl e \<Rightarrow> Inl e
           | Inr (rain1, slot2) \<Rightarrow>
               (case amount_step N ''snow_amount'' (averageSnow c) slot2 of
                  Inl e \<Rightarrow> Inl e
                | Inr (snow1, slot3) \<Rightarrow>
                    Inr (\<lparr>tmpPrecip = tmp1, averageRain = rain1, averageSnow = snow1\<rparr>,
                         slot3))))"

text \<open>
  The inner loop, over the sorted times of one date: the slot is read, updated, and
  popped when it has no \<^verbatim>\<open>temp\<close>. The dicts are mutated in place by the code; the model
  passes the dict of the date along and returns it.
\<close>

fun cleanup_times ::
  "'f numerics \<Rightarrow> string list \<Rightarrow> 'f carry \<Rightarrow> 'f times \<Rightarrow> error + ('f carry \<times> 'f times)" where
  "cleanup_times N [] c tms = Inr (c, tms)"
| "cleanup_times N (time # ts) c tms =
     (case map_of tms time of
        None \<Rightarrow> Inl KeyError
      | Some slot \<Rightarrow>
          (case cleanup_slot N c slot of
             Inl e \<Rightarrow> Inl e
           | Inr (c1, slot1) \<Rightarrow>
               cleanup_times N ts c1
                 (if \<not> has_key slot1 ''temp'' then AList.delete time tms
                  else AList.update time slot1 tms)))"

text \<open>The outer loop, over the sorted dates.\<close>

fun cleanup_dates ::
  "'f numerics \<Rightarrow> string list \<Rightarrow> 'f carry \<Rightarrow> 'f hourly \<Rightarrow> error + ('f carry \<times> 'f hourly)" where
  "cleanup_dates N [] c h = Inr (c, h)"
| "cleanup_dates N (date # ds) c h =
     (case map_of h date of
        None \<Rightarrow> Inl KeyError
      | Some tms \<Rightarrow>
          (case cleanup_times N (sort (map fst tms)) c tms of
             Inl e \<Rightarrow> Inl e
           | Inr (c1, times1) \<Rightarrow> cleanup_dates N ds c1 (AList.update date times1 h)))"

definition cleanup :: "'f numerics \<Rightarrow> 'f forecast \<Rightarrow> error + 'f forecast" where
  "cleanup N data =
     (case cleanup_dates N (sort (map fst (fc_hourly data))) carry0 (fc_hourly data) of
        Inl e \<Rightarrow> Inl e
      | Inr (c, h) \<Rightarrow> Inr (data\<lparr>fc_hourly := h\<rparr>))"

text \<open>\<^verbatim>\<open>ForecastParser.parse\<close>, after the document has been parsed.\<close>

definition forecast_of_doc :: "'f numerics \<Rightarrow> doc \<Rightarrow> error + 'f forecast" where
  "forecast_of_doc N d =
     and_then (daily N d) (\<lambda>dl.
     and_then (hourly_of N d) (\<lambda>h.
     cleanup N \<lparr>fc_daily = dl, fc_hourly = h\<rparr>))"

section \<open>An exact instance of the built-ins, for the examples\<close>

text \<open>
  To evaluate the model on concrete inputs the parameters need values. \<open>exact_numerics\<close>
  reads decimal strings as rationals and computes exactly; on the short decimals of the
  examples Python's floats print the same digits. \<open>isoparse_basic\<close> reads a timestamp
  \<^verbatim>\<open>YYYY-MM-DDTHH:MM:SS\<close> and ignores a UTC offset after it.
\<close>

definition digit_value :: "char \<Rightarrow> nat option" where
  "digit_value c =
     map_of [(CHR ''0'', 0), (CHR ''1'', 1), (CHR ''2'', 2), (CHR ''3'', 3), (CHR ''4'', 4),
             (CHR ''5'', 5), (CHR ''6'', 6), (CHR ''7'', 7), (CHR ''8'', 8), (CHR ''9'', 9)] c"

fun digits_value :: "string \<Rightarrow> nat \<Rightarrow> nat option" where
  "digits_value [] acc = Some acc"
| "digits_value (c # cs) acc =
     (case digit_value c of None \<Rightarrow> None | Some d \<Rightarrow> digits_value cs (10 * acc + d))"

definition nat_of_digits :: "string \<Rightarrow> nat option" where
  "nat_of_digits s = (if s = [] then None else digits_value s 0)"

definition int_of_decimal :: "string \<Rightarrow> int option" where
  "int_of_decimal s =
     (case s of
        [] \<Rightarrow> None
      | c # r \<Rightarrow>
          if c = CHR ''-'' then map_option (\<lambda>n. - int n) (nat_of_digits r)
          else map_option int (nat_of_digits s))"

definition unsigned_decimal :: "string \<Rightarrow> rat option" where
  "unsigned_decimal s =
     (case split_on CHR ''.'' s of
        [a] \<Rightarrow> map_option of_nat (nat_of_digits a)
      | [a, b] \<Rightarrow>
          (case nat_of_digits a of
             None \<Rightarrow> None
           | Some x \<Rightarrow>
               (case nat_of_digits b of
                  None \<Rightarrow> None
                | Some y \<Rightarrow> Some (of_nat x + of_nat y / 10 ^ length b)))
      | _ \<Rightarrow> None)"

definition rat_of_decimal :: "string \<Rightarrow> rat option" where
  "rat_of_decimal s =
     (case s of
        [] \<Rightarrow> None
      | c # r \<Rightarrow>
          if c = CHR ''-'' then map_option uminus (unsigned_decimal r)
          else unsigned_decimal s)"

definition round_half_even :: "rat \<Rightarrow> int" where
  "round_half_even q =
     (let f = \<lfloor>q\<rfloor>; r = q - of_int f
      in if r < 1 / 2 then f
         else if r > 1 / 2 then f + 1
         else if even f then f else f + 1)"

definition round_rat :: "rat \<Rightarrow> int \<Rightarrow> rat" where
  "round_rat q n =
     (if n \<ge> 0 then of_int (round_half_even (q * 10 ^ nat n)) / 10 ^ nat n
      else of_int (round_half_even (q / 10 ^ nat (- n))) * 10 ^ nat (- n))"

definition exact_numerics :: "rat numerics" where
  "exact_numerics =
     \<lparr>fl_of_string = rat_of_decimal,
      int_of_string = int_of_decimal,
      fl_of_int = of_int,
      fl_trunc = (\<lambda>q. Inr (if q \<ge> 0 then \<lfloor>q\<rfloor> else \<lceil>q\<rceil>)),
      fl_add = (+),
      fl_mul = (*),
      fl_div = (/),
      fl_less = (<),
      fl_is_zero = (\<lambda>q. q = 0),
      fl_round = round_rat,
      fl_mph = 115077945 / 100000000\<rparr>"

definition isoparse_basic :: "string \<Rightarrow> datetime option" where
  "isoparse_basic s =
     (if length s < 19 \<or> s ! 4 \<noteq> CHR ''-'' \<or> s ! 7 \<noteq> CHR ''-'' \<or> s ! 10 \<noteq> CHR ''T''
         \<or> s ! 13 \<noteq> CHR '':'' \<or> s ! 16 \<noteq> CHR '':'' then None
      else
        Option.bind (nat_of_digits (take 4 s)) (\<lambda>y.
        Option.bind (nat_of_digits (take 2 (drop 5 s))) (\<lambda>m.
        Option.bind (nat_of_digits (take 2 (drop 8 s))) (\<lambda>d.
        Option.bind (nat_of_digits (take 2 (drop 11 s))) (\<lambda>h.
        Option.bind (nat_of_digits (take 2 (drop 14 s))) (\<lambda>mi.
        Option.bind (nat_of_digits (take 2 (drop 17 s))) (\<lambda>se.
        Some \<lparr>dt_year = y, dt_month = m, dt_day = d, dt_hour = h, dt_minute = mi,
              dt_second = se, dt_microsecond = 0\<rparr>)))))))"

section \<open>Vocabulary of the statements\<close>

text \<open>
  For the daily low: the value of the last daily minimum whose end date is \<open>d\<close>, the
  hourly samples that start or end on \<open>d\<close>, and their raw values in list order.
\<close>

definition ends_on :: "string \<Rightarrow> pvalue \<Rightarrow> bool" where
  "ends_on d day = (case pv_end day of None \<Rightarrow> False | Some e \<Rightarrow> strftime_date e = d)"

definition seed_value :: "pvalue list \<Rightarrow> string \<Rightarrow> 'f pyval option" where
  "seed_value dailies d =
     (case List.find (ends_on d) (rev dailies) of
        None \<Rightarrow> None
      | Some day \<Rightarrow> Some (raw (pv_value day)))"

definition touches :: "string \<Rightarrow> pvalue \<Rightarrow> bool" where
  "touches d hour = (strftime_date (pv_start hour) = d \<or> ends_on d hour)"

definition touching :: "string \<Rightarrow> pvalue list \<Rightarrow> 'f pyval list" where
  "touching d hourlies = map (\<lambda>hour. raw (pv_value hour)) (filter (touches d) hourlies)"

text \<open>
  \<open>lowest_of N v0 vals r\<close>: \<open>r\<close> is what remains of the stored value \<open>v0\<close> after the values
  \<open>vals\<close> were compared with it. With no value to compare, \<open>r\<close> is \<open>v0\<close>. Otherwise every
  value reads as an integer, the integer of \<open>r\<close> is below all of them and not above that
  of \<open>v0\<close>; \<open>r\<close> is still \<open>v0\<close> when it is not strictly lower, and one of \<open>vals\<close> when it is.
\<close>

definition lowest_of :: "'f numerics \<Rightarrow> 'f pyval \<Rightarrow> 'f pyval list \<Rightarrow> 'f pyval \<Rightarrow> bool" where
  "lowest_of N v0 vals r =
     (if vals = [] then r = v0
      else (\<exists>i0 i. py_int N v0 = Inr i0 \<and> py_int N r = Inr i \<and>
              list_all (\<lambda>v. \<exists>j. py_int N v = Inr j \<and> i \<le> j) vals \<and>
              i \<le> i0 \<and> (i = i0 \<longrightarrow> r = v0) \<and> (i < i0 \<longrightarrow> r \<in> set vals)))"

text \<open>
  For the aggregator: a value is kept when it passes the numeric test and the skipper
  answers \<^verbatim>\<open>False\<close>; \<open>kept_on\<close> are the kept values that start on the date \<open>d\<close>; a date
  qualifies when it has a kept value and, with a nonzero \<^verbatim>\<open>min_values\<close>, at least that many.
\<close>

definition kept :: "'f numerics \<Rightarrow> bool \<Rightarrow> (pvalue \<Rightarrow> error + bool) option \<Rightarrow> pvalue \<Rightarrow> bool"
  where
  "kept N is_numeric skipper v =
     (\<not> (is_numeric \<and> \<not> truthy N (raw (pv_value v))) \<and>
      (case skipper of None \<Rightarrow> True | Some sk \<Rightarrow> sk v = Inr False))"

definition kept_on ::
  "'f numerics \<Rightarrow> bool \<Rightarrow> (pvalue \<Rightarrow> error + bool) option \<Rightarrow> string \<Rightarrow> pvalue list \<Rightarrow>
   pvalue list" where
  "kept_on N is_numeric skipper d values =
     filter (\<lambda>v. strftime_date (pv_start v) = d \<and> kept N is_numeric skipper v) values"

definition qualifies :: "int option \<Rightarrow> nat \<Rightarrow> bool" where
  "qualifies min_values n =
     (0 < n \<and> (case min_values of None \<Rightarrow> True | Some m \<Rightarrow> m = 0 \<or> m \<le> int n))"

text \<open>
  For the assembly: the element codes that \<^verbatim>\<open>_daily\<close> looks up, the one more that
  \<^verbatim>\<open>_hourly\<close> needs, and the codes whose parameter a document lacks.
\<close>

definition daily_codes :: "string list" where
  "daily_codes =
     [''maxt'', ''mint'', ''temp'', ''pop12'', ''qpf'', ''snow'', ''rhm'', ''wgust'', ''wspd'',
      ''wx'', ''sym'']"

definition required_codes :: "string list" where
  "required_codes = daily_codes @ [''sky'']"

definition missing_codes :: "doc \<Rightarrow> string list" where
  "missing_codes d = filter (\<lambda>code. isl (values_of d code)) required_codes"

text \<open>
  For the post-processing. \<open>slot_at\<close> reads \<^verbatim>\<open>hourly[date][time]\<close>. \<open>ordered_slots\<close> lists the
  slots in the order the two loops visit them: dates ascending, and within a date the
  times ascending. A well-formed mapping has no key twice, as every \<^verbatim>\<open>dict\<close> does.
\<close>

definition slot_at :: "'f hourly \<Rightarrow> string \<Rightarrow> string \<Rightarrow> 'f slot option" where
  "slot_at h date time = (case map_of h date of None \<Rightarrow> None | Some tms \<Rightarrow> map_of tms time)"

definition date_slots :: "string \<Rightarrow> 'f times \<Rightarrow> ((string \<times> string) \<times> 'f slot) list" where
  "date_slots date tms = map (\<lambda>(time, slot). ((date, time), slot)) (sort_key fst tms)"

definition ordered_slots :: "'f hourly \<Rightarrow> ((string \<times> string) \<times> 'f slot) list" where
  "ordered_slots h = concat (map (\<lambda>(date, tms). date_slots date tms) (sort_key fst h))"

definition well_formed :: "'f hourly \<Rightarrow> bool" where
  "well_formed h =
     (distinct (map fst h) \<and> list_all (\<lambda>(date, tms). distinct (map fst tms)) h)"

text \<open>
  The pass as a fold over a list of slots, the carried variables passed from one slot to
  the next; it returns the slots after the loop body, those without \<^verbatim>\<open>temp\<close> included.
\<close>

fun pass ::
  "'f numerics \<Rightarrow> 'f carry \<Rightarrow> ('k \<times> 'f slot) list \<Rightarrow> error + ('f carry \<times> ('k \<times> 'f slot) list)"
  where
  "pass N c [] = Inr (c, [])"
| "pass N c ((k, s) # rest) =
     (case cleanup_slot N c s of
        Inl e \<Rightarrow> Inl e
      | Inr (c1, s1) \<Rightarrow>
          (case pass N c1 rest of
             Inl e \<Rightarrow> Inl e
           | Inr (c2, outs) \<Rightarrow> Inr (c2, (k, s1) # outs)))"

text \<open>
  What a slot reports for a field: the value of the field when it is there and truthy.
  \<open>last_reported\<close> is the value reported most recently in a list of earlier slots.
  \<open>halved\<close> is \<^verbatim>\<open>round(float(v)/2, 2)\<close>. \<open>carried\<close> is the carry-over that a slot finds for
  an amount field: \<^verbatim>\<open>None\<close> at the very first slot, the halved amount when the slot
  just before reported one, and 0 otherwise.
\<close>

definition reported :: "'f numerics \<Rightarrow> string \<Rightarrow> 'f slot \<Rightarrow> 'f pyval option" where
  "reported N field slot =
     (case map_of slot field of
        None \<Rightarrow> None
      | Some v \<Rightarrow> if truthy N v then Some v else None)"

definition last_reported :: "'f numerics \<Rightarrow> string \<Rightarrow> 'f slot list \<Rightarrow> 'f pyval option" where
  "last_reported N field earlier =
     (case List.find (\<lambda>s. reported N field s \<noteq> None) (rev earlier) of
        None \<Rightarrow> None
      | Some s \<Rightarrow> reported N field s)"

definition halved :: "'f numerics \<Rightarrow> 'f pyval \<Rightarrow> 'f pyval" where
  "halved N v =
     (case py_float N v of
        Inl e \<Rightarrow> PNone
      | Inr f \<Rightarrow> PFloat (fl_round N (fl_div N f (fl_of_int N 2)) 2))"

definition carried :: "'f numerics \<Rightarrow> string \<Rightarrow> 'f slot list \<Rightarrow> 'f pyval" where
  "carried N field earlier =
     (case rev earlier of
        [] \<Rightarrow> PNone
      | s # _ \<Rightarrow> (case reported N field s of None \<Rightarrow> PInt 0 | Some v \<Rightarrow> halved N v))"

text \<open>The carried average of an amount field: \<^verbatim>\<open>averageRain\<close> or \<^verbatim>\<open>averageSnow\<close>.\<close>

definition average_of :: "string \<Rightarrow> 'f carry \<Rightarrow> 'f pyval" where
  "average_of field c = (if field = ''rain_amount'' then averageRain c else averageSnow c)"

section \<open>Example documents\<close>

text \<open>
  A small feed as an element tree: one location, one time layout with two periods, and
  a \<^verbatim>\<open>temperature\<close> element that refers to the layout and carries the given
  \<^verbatim>\<open>value\<close> children.
\<close>

definition leaf :: "string \<Rightarrow> string \<Rightarrow> element" where
  "leaf t x = Element t [] (Some x) []"

definition feed_tree :: "string list \<Rightarrow> element" where
  "feed_tree vals =
     Element ''dwml'' [] None
       [Element ''data'' [] None
          [Element ''location'' [] None
             [leaf ''location-key'' ''point1'',
              Element ''point'' [(''latitude'', ''38.99''), (''longitude'', ''-77.01'')] None []],
           Element ''time-layout'' [(''time-coordinate'', ''local''), (''summarization'', ''none'')]
             None
             [leaf ''layout-key'' ''k-p24h-n2-1'',
              leaf ''start-valid-time'' ''2020-02-07T07:00:00-05:00'',
              leaf ''end-valid-time'' ''2020-02-07T19:00:00-05:00'',
              leaf ''start-valid-time'' ''2020-02-08T07:00:00-05:00'',
              leaf ''end-valid-time'' ''2020-02-08T19:00:00-05:00''],
           Element ''parameters'' [(''applicable-location'', ''point1'')] None
             [Element ''temperature''
                [(''type'', ''maximum''), (''units'', ''Fahrenheit''),
                 (''time-layout'', ''k-p24h-n2-1'')] None
                (leaf ''name'' ''Daily Maximum Temperature'' # map (leaf ''value'') vals)]]]"

text \<open>For each parameter: its number of values and the number of periods of its layout.\<close>

definition value_period_counts :: "doc \<Rightarrow> (nat \<times> nat option) list" where
  "value_period_counts d =
     map (\<lambda>p. (length (p_values p),
               map_option (\<lambda>layout. length (tl_periods layout))
                 (map_of (time_layouts d) (p_time_layout_key p))))
       (parameters d)"

definition parsed_counts ::
  "(string \<Rightarrow> datetime option) \<Rightarrow> element \<Rightarrow> error + (nat \<times> nat option) list" where
  "parsed_counts isoparse tree =
     (case parse_tree isoparse tree of Inl e \<Rightarrow> Inl e | Inr d \<Rightarrow> Inr (value_period_counts d))"

text \<open>Parameter values with their timestamps, for the examples.\<close>

definition stamp :: "nat \<Rightarrow> nat \<Rightarrow> nat \<Rightarrow> nat \<Rightarrow> nat \<Rightarrow> datetime" where
  "stamp y m d h mi =
     \<lparr>dt_year = y, dt_month = m, dt_day = d, dt_hour = h, dt_minute = mi, dt_second = 0,
      dt_microsecond = 0\<rparr>"

definition sample :: "string \<Rightarrow> datetime \<Rightarrow> pvalue" where
  "sample v s = \<lparr>pv_value = Some v, pv_start = s, pv_end = None\<rparr>"

definition period_value :: "string \<Rightarrow> datetime \<Rightarrow> datetime \<Rightarrow> pvalue" where
  "period_value v s e = \<lparr>pv_value = Some v, pv_start = s, pv_end = Some e\<rparr>"

text \<open>
  Six-hourly rain amounts: three on 2020-02-08, two on 2020-02-09, and two empty values
  on 2020-02-10.
\<close>

definition rain_values :: "pvalue list" where
  "rain_values =
     [period_value ''0.10'' (stamp 2020 2 8 1 0) (stamp 2020 2 8 7 0),
      period_value ''0.20'' (stamp 2020 2 8 7 0) (stamp 2020 2 8 13 0),
      period_value ''0.05'' (stamp 2020 2 8 13 0) (stamp 2020 2 8 19 0),
      period_value ''0.30'' (stamp 2020 2 9 1 0) (stamp 2020 2 9 7 0),
      period_value ''0.10'' (stamp 2020 2 9 7 0) (stamp 2020 2 9 13 0),
      period_value [] (stamp 2020 2 10 1 0) (stamp 2020 2 10 7 0),
      period_value [] (stamp 2020 2 10 7 0) (stamp 2020 2 10 13 0)]"

text \<open>
  A document with one parameter for each name of \<^verbatim>\<open>codes\<close> but those in \<open>omit\<close>. All
  parameters are empty but the daily minimum, which has the values \<open>mint\<close>.
\<close>

definition doc_with :: "string list \<Rightarrow> pvalue list \<Rightarrow> doc" where
  "doc_with omit mint =
     \<lparr>locations = [], time_layouts = [],
      parameters =
        map (\<lambda>(name, code).
               \<lparr>p_tag = code, p_name = Some name, p_time_layout_key = None,
                p_values = (if code = ''mint'' then mint else []),
                p_typ = None, p_units = None\<rparr>)
          (filter (\<lambda>(name, code). name \<notin> set omit) codes)\<rparr>"

text \<open>
  An hourly mapping of one date, its times not in order: 06:00 has a temperature, a
  probability of precipitation of 40 and a rain amount of 0.40; 09:00 and 12:00 have
  only a temperature.
\<close>

definition hourly_example :: "rat forecast" where
  "hourly_example =
     \<lparr>fc_daily = [],
      fc_hourly =
        [(''2020-02-08'',
          [(''09:00:00'', [(''temp'', PStr ''31'')]),
           (''06:00:00'',
            [(''temp'', PStr ''30''), (''precip'', PStr ''40''),
             (''rain_amount'', PStr ''0.40'')]),
           (''12:00:00'', [(''temp'', PStr ''33'')])])]\<rparr>"

text \<open>
  An hourly mapping of two dates: the last slot of 2020-02-07 has a probability of
  precipitation and a rain amount but no temperature; the first slot of 2020-02-08 has
  only a temperature.
\<close>

definition pruned_example :: "rat forecast" where
  "pruned_example =
     \<lparr>fc_daily = [],
      fc_hourly =
        [(''2020-02-07'',
          [(''21:00:00'', [(''precip'', PStr ''40''), (''rain_amount'', PStr ''0.40'')])]),
         (''2020-02-08'', [(''00:00:00'', [(''temp'', PStr ''30'')])])]\<rparr>"

section \<open>The most-frequent reduction\<close>

lemma first_seen_snoc:
  "first_seen (xs @ [x]) = (if x \<in> set xs then first_seen xs else first_seen xs @ [x])"
  by (simp add: first_seen_def)

lemma set_first_seen [simp]: "set (first_seen xs) = set xs"
  by (simp add: first_seen_def)

lemma distinct_first_seen [simp]: "distinct (first_seen xs)"
  by (simp add: first_seen_def)

lemma update_map_existing:
  "distinct ks \<Longrightarrow> x \<in> set ks \<Longrightarrow>
   AList.update x (g x) (map (\<lambda>k. (k, f k)) ks) = map (\<lambda>k. (k, (f(x := g x)) k)) ks"
  by (induction ks) (auto simp: image_iff)

lemma update_map_new:
  "x \<notin> set ks \<Longrightarrow> AList.update x v (map (\<lambda>k. (k, f k)) ks) = map (\<lambda>k. (k, f k)) ks @ [(x, v)]"
  by (induction ks) auto

lemma map_of_map_key:
  "map_of (map (\<lambda>k. (k, f k)) ks) x = (if x \<in> set ks then Some (f x) else None)"
  by (induction ks) auto

lemma update_append_last:
  "x \<notin> fst ` set ps \<Longrightarrow> AList.update x v (ps @ [(x, w)]) = ps @ [(x, v)]"
  by (induction ps) auto

lemma count_val_new:
  "x \<notin> fst ` set ps \<Longrightarrow> count_val ps x = ps @ [(x, 1)]"
proof -
  assume a: "x \<notin> fst ` set ps"
  then have n: "map_of ps x = None" by (simp add: map_of_eq_None_iff)
  have u: "AList.update x 0 ps = ps @ [(x, 0)]" using a by (induction ps) auto
  show ?thesis using a by (simp add: count_val_def n u map_add_def update_append_last Let_def)
qed

lemma count_val_table:
  "foldl count_val [] vs = map (\<lambda>k. (k, count_list vs k)) (first_seen vs)"
proof (induction vs rule: rev_induct)
  case Nil
  show ?case by (simp add: first_seen_def)
next
  case (snoc x xs)
  show ?case
  proof (cases "x \<in> set xs")
    case True
    have "count_val (map (\<lambda>k. (k, count_list xs k)) (first_seen xs)) x
        = map (\<lambda>k. (k, ((count_list xs)(x := count_list xs x + 1)) k)) (first_seen xs)"
      using True update_map_existing[of "first_seen xs" x "\<lambda>_. count_list xs x + 1" "count_list xs"]
      by (simp add: count_val_def map_of_map_key)
    also have "\<dots> = map (\<lambda>k. (k, count_list (xs @ [x]) k)) (first_seen xs)"
      by (rule map_cong) auto
    finally show ?thesis using True snoc by (simp add: first_seen_snoc)
  next
    case False
    have "count_val (map (\<lambda>k. (k, count_list xs k)) (first_seen xs)) x
        = map (\<lambda>k. (k, count_list xs k)) (first_seen xs) @ [(x, 1)]"
      using False by (intro count_val_new) (auto simp: image_iff)
    also have "\<dots> = map (\<lambda>k. (k, count_list (xs @ [x]) k)) (first_seen xs) @ [(x, count_list (xs @ [x]) x)]"
      using False by (auto simp: count_list_0_iff)
    finally show ?thesis using False snoc by (simp add: first_seen_snoc)
  qed
qed

lemma scan_counts_none:
  "\<forall>(k, v) \<in> set kvs. v \<le> m \<Longrightarrow> scan_counts kvs val m = val"
  by (induction kvs arbitrary: val m) auto

lemma scan_counts_first_max:
  "\<exists>(k, v) \<in> set kvs. v > m \<Longrightarrow>
   \<exists>pre r c post. kvs = pre @ (r, c) # post \<and> scan_counts kvs val m = Some r \<and> c > m
      \<and> (\<forall>(k, v) \<in> set pre. v < c) \<and> (\<forall>(k, v) \<in> set post. v \<le> c)"
proof (induction kvs arbitrary: val m)
  case Nil
  then show ?case by simp
next
  case (Cons kv kvs)
  obtain k v where kv: "kv = (k, v)" by (cases kv)
  show ?case
  proof (cases "v > m")
    case True
    show ?thesis
    proof (cases "\<exists>(k', v') \<in> set kvs. v' > v")
      case True2: True
      from Cons.IH[OF True2, of "Some k"] obtain pre r c post where
        h: "kvs = pre @ (r, c) # post" "scan_counts kvs (Some k) v = Some r" "c > v"
           "\<forall>(k, v) \<in> set pre. v < c" "\<forall>(k, v) \<in> set post. v \<le> c" by blast
      show ?thesis
        apply (rule exI[of _ "(k, v) # pre"], rule exI[of _ r], rule exI[of _ c], rule exI[of _ post])
        using h True kv by auto
    next
      case False
      then have le: "\<forall>(k', v') \<in> set kvs. v' \<le> v" by auto
      show ?thesis
        apply (rule exI[of _ "[]"], rule exI[of _ k], rule exI[of _ v], rule exI[of _ kvs])
        using True kv le scan_counts_none[OF le] by auto
    qed
  next
    case False
    with Cons.prems kv have ex: "\<exists>(k, v) \<in> set kvs. v > m" by auto
    from Cons.IH[OF ex, of val] obtain pre r c post where
        h: "kvs = pre @ (r, c) # post" "scan_counts kvs val m = Some r" "c > m"
           "\<forall>(k, v) \<in> set pre. v < c" "\<forall>(k, v) \<in> set post. v \<le> c" by blast
    show ?thesis
      apply (rule exI[of _ "(k, v) # pre"], rule exI[of _ r], rule exI[of _ c], rule exI[of _ post])
      using h False kv by auto
  qed
qed


lemma first_seen_append:
  "first_seen (xs @ ys) = first_seen xs @ filter (\<lambda>y. y \<notin> set xs) (first_seen ys)"
proof (induction ys rule: rev_induct)
  case Nil
  show ?case by (simp add: first_seen_def)
next
  case (snoc y ys)
  have "first_seen (xs @ ys @ [y]) = first_seen ((xs @ ys) @ [y])" by simp
  also have "\<dots> = (if y \<in> set (xs @ ys) then first_seen (xs @ ys) else first_seen (xs @ ys) @ [y])"
    by (rule first_seen_snoc)
  finally show ?case using snoc by (auto simp: first_seen_snoc)
qed

lemma first_seen_split:
  assumes "k \<notin> set pre"
  shows "\<exists>rest. first_seen (pre @ k # post) = first_seen pre @ k # rest"
proof -
  have "first_seen (k # post) = first_seen ([k] @ post)" by simp
  also have "\<dots> = k # filter (\<lambda>y. y \<notin> set [k]) (first_seen post)"
    unfolding first_seen_append by (simp add: first_seen_def)
  finally have "first_seen (k # post) = k # filter (\<lambda>y. y \<noteq> k) (first_seen post)" by simp
  then show ?thesis using assms by (simp add: first_seen_append)
qed

lemma split_first_unique:
  "k \<notin> set p1 \<Longrightarrow> k \<notin> set p2 \<Longrightarrow> p1 @ k # q1 = p2 @ k # q2 \<Longrightarrow> p1 = p2"
proof (induction p1 arbitrary: p2)
  case Nil
  then show ?case by (cases p2) auto
next
  case (Cons a p1)
  then show ?case by (cases p2) auto
qed

text \<open>
  Claim C8. For a non-empty list \<^verbatim>\<open>_most_frequent\<close> returns a value \<open>k\<close> of the list whose
  number of occurrences is the maximum, and every value met before the first occurrence
  of \<open>k\<close> occurs strictly less often: \<open>k\<close> is the first entry of the frequency table, in
  first-encounter order, that reaches the maximum. Equal counts are resolved towards the
  value met first.
\<close>

theorem most_frequent_first_max:
  assumes "values \<noteq> []"
  shows "\<exists>k. most_frequent values = Inr k \<and> k \<in> set values
     \<and> (\<forall>x \<in> set values. count_list values x \<le> count_list values k)
     \<and> (\<forall>pre post. values = pre @ k # post \<and> k \<notin> set pre \<longrightarrow>
            (\<forall>x \<in> set pre. count_list values x < count_list values k))"
proof -
  let ?tab = "map (\<lambda>k. (k, count_list values k)) (first_seen values)"
  let ?val0 = "if values = [] then None else Some (last values)"
  from assms obtain x0 where x0: "x0 \<in> set values" by (cases "values") auto
  then have "count_list values x0 > 0" by (metis count_list_0_iff gr0I)
  with x0 have "\<exists>(k, v) \<in> set ?tab. v > 0" by auto
  from scan_counts_first_max[OF this, of ?val0] obtain pre r c post where
    h: "?tab = pre @ (r, c) # post" "scan_counts ?tab ?val0 0 = Some r"
       "\<forall>(k, v) \<in> set pre. v < c" "\<forall>(k, v) \<in> set post. v \<le> c" by blast
  have mf: "most_frequent values = Inr r"
    using h(2) by (simp add: most_frequent_def count_val_table)
  have "(r, c) \<in> set ?tab" using h(1) by simp
  then have r: "r \<in> set values" and c: "c = count_list values r" by auto
  have keys: "first_seen values = map fst pre @ r # map fst post"
  proof -
    have "map fst ?tab = first_seen values" by (simp add: comp_def)
    then show ?thesis using h(1) by simp
  qed
  have mx: "\<forall>x \<in> set values. count_list values x \<le> count_list values r"
  proof
    fix x assume "x \<in> set values"
    then have "(x, count_list values x) \<in> set ?tab" by auto
    then have "(x, count_list values x) \<in> set pre \<or> (x, count_list values x) = (r, c)
        \<or> (x, count_list values x) \<in> set post" using h(1) by auto
    then show "count_list values x \<le> count_list values r"
      using h(3,4) c by fastforce
  qed
  have before: "\<forall>p q. values = p @ r # q \<and> r \<notin> set p \<longrightarrow>
            (\<forall>x \<in> set p. count_list values x < count_list values r)"
  proof (intro allI impI ballI)
    fix p q x assume a: "values = p @ r # q \<and> r \<notin> set p" and x: "x \<in> set p"
    from a first_seen_split[of r p q] obtain rest where
      fs: "first_seen values = first_seen p @ r # rest" by auto
    have "distinct (map fst pre @ r # map fst post)" using keys distinct_first_seen[of "values"] by simp
    then have n1: "r \<notin> set (map fst pre)" by simp
    have n2: "r \<notin> set (first_seen p)" using a by simp
    have "map fst pre @ r # map fst post = first_seen p @ r # rest" using keys fs by simp
    from split_first_unique[OF n1 n2 this] have "map fst pre = first_seen p" .
    with x have "x \<in> fst ` set pre" by (metis set_first_seen set_map)
    then obtain n where n: "(x, n) \<in> set pre" by auto
    then have "(x, n) \<in> set ?tab" using h(1) by simp
    then have "n = count_list values x" by auto
    with n h(3) c show "count_list values x < count_list values r" by auto
  qed
  show ?thesis using mf r mx before by blast
qed

text \<open>The list \<open>[A, B, A, B]\<close>, with equal counts, gives \<open>A\<close>.\<close>

theorem most_frequent_tie_witness:
  "most_frequent [1, 2, 1, 2 :: nat] = Inr 1"
proof -
  have ne: "[1, 2, 1, 2 :: nat] \<noteq> []" by simp
  from most_frequent_first_max[OF ne] obtain k where
    k: "most_frequent [1, 2, 1, 2 :: nat] = Inr k" "k \<in> set [1, 2, 1, 2 :: nat]"
    and b: "\<forall>pre post. [1, 2, 1, 2 :: nat] = pre @ k # post \<and> k \<notin> set pre \<longrightarrow>
            (\<forall>x \<in> set pre. count_list [1, 2, 1, 2 :: nat] x < count_list [1, 2, 1, 2 :: nat] k)"
    by blast
  have "k \<noteq> 2"
  proof
    assume "k = 2"
    with b have "[1, 2, 1, 2 :: nat] = [1] @ 2 # [1, 2] \<and> (2::nat) \<notin> set [1] \<longrightarrow>
         (\<forall>x \<in> set [1::nat]. count_list [1, 2, 1, 2 :: nat] x < count_list [1, 2, 1, 2 :: nat] 2)"
      by blast
    then show False by simp
  qed
  with k show ?thesis by auto
qed


section \<open>Weather-phrase decoding\<close>














section \<open>The parser: values against periods\<close>

lemma zip_values_length:
  "zip_values isoparse vs ps = Inr pvs \<Longrightarrow> length pvs = min (length vs) (length ps)"
proof (induction vs arbitrary: ps pvs)
  case Nil
  then show ?case by simp
next
  case (Cons v vs)
  show ?case
  proof (cases ps)
    case Nil
    with Cons.prems show ?thesis by simp
  next
    case (Cons period ps')
    with Cons.prems obtain st en rest where
      r: "zip_values isoparse vs ps' = Inr rest"
      and p: "pvs = \<lparr>pv_value = v, pv_start = st, pv_end = en\<rparr> # rest"
      by (auto split: sum.splits if_splits)
    from Cons.IH[OF r] p Cons show ?thesis by simp
  qed
qed

lemma parse_parameter_counts:
  assumes "parse_parameter isoparse tls e = Inr p"
  shows "\<exists>layout. map_of tls (p_time_layout_key p) = Some layout \<and>
           length (p_values p) = min (length (raw_values e)) (length (tl_periods layout))"
  using assms
  by (auto simp: parse_parameter_def raw_values_def Let_def zip_values_length
           split: option.splits sum.splits)

lemma parameters_loop_counts:
  "parameters_loop isoparse tls es = Inr ps \<Longrightarrow>
   list_all2 (\<lambda>e p. \<exists>layout. map_of tls (p_time_layout_key p) = Some layout \<and>
                length (p_values p) = min (length (raw_values e)) (length (tl_periods layout)))
     es ps"
proof (induction es arbitrary: ps)
  case Nil
  then show ?case by simp
next
  case (Cons e es)
  from Cons.prems obtain p rest where
    p: "parse_parameter isoparse tls e = Inr p"
    and r: "parameters_loop isoparse tls es = Inr rest"
    and ps: "ps = p # rest"
    by (auto split: sum.splits)
  from parse_parameter_counts[OF p] Cons.IH[OF r] ps show ?case by simp
qed

text \<open>
  Claim C1, amended. When the parser returns a document, every parameter has a time
  layout under its key, and the number of its values is the smaller of the number of
  raw values of its element and the number of periods of the layout: the loop over
  \<^verbatim>\<open>zip(values, periods)\<close> stops with the shorter list. The two counts are equal when the
  element has at least as many values as the layout has periods.
\<close>

theorem parse_value_counts:
  assumes "parse_tree isoparse tree = Inr d"
  shows "\<exists>container. find_data_parameters tree = Some container \<and>
     list_all2 (\<lambda>e p. \<exists>layout. map_of (time_layouts d) (p_time_layout_key p) = Some layout \<and>
                  length (p_values p) = min (length (raw_values e)) (length (tl_periods layout)))
       (e_children container) (parameters d)"
proof -
  from assms obtain tls pars where
    tls: "parse_time_layouts tree = Inr tls"
    and pars: "parse_parameters isoparse tree tls = Inr pars"
    and d: "d = \<lparr>locations = parse_locations tree, time_layouts = tls, parameters = pars\<rparr>"
    by (auto simp: parse_tree_def Let_def split: sum.splits)
  from pars obtain container where
    c: "find_data_parameters tree = Some container"
    and l: "parameters_loop isoparse tls (e_children container) = Inr pars"
    by (auto simp: parse_parameters_def split: option.splits)
  from parameters_loop_counts[OF l] c d show ?thesis by simp
qed

lemmas example_parse_defs =
  parse_tree_def parse_locations_def parse_time_layouts_def parse_parameters_def
  parse_parameter_def getiterator_def find_data_parameters_def location_child_def
  layout_child_def parameter_child_def parse_instant_def feed_tree_def leaf_def
  isoparse_basic_def nat_of_digits_def digit_value_def value_period_counts_def Let_def

text \<open>
  The example feed with two values for its two periods: the theorem gives two parameter
  values, as many as the layout has periods.
\<close>

theorem parse_value_counts_witness:
  "\<exists>d. parse_tree isoparse_basic (feed_tree [''33'', ''41'']) = Inr d
       \<and> value_period_counts d = [(2, Some 2)]
       \<and> (\<exists>container. find_data_parameters (feed_tree [''33'', ''41'']) = Some container \<and>
            list_all2 (\<lambda>e p. \<exists>layout.
                         map_of (time_layouts d) (p_time_layout_key p) = Some layout \<and>
                         length (p_values p) =
                           min (length (raw_values e)) (length (tl_periods layout)))
              (e_children container) (parameters d))"
proof -
  have "\<exists>d. parse_tree isoparse_basic (feed_tree [''33'', ''41'']) = Inr d
           \<and> value_period_counts d = [(2, Some 2)]"
    by (simp add: example_parse_defs)
  then obtain d where d: "parse_tree isoparse_basic (feed_tree [''33'', ''41'']) = Inr d"
    and c: "value_period_counts d = [(2, Some 2)]" by blast
  from parse_value_counts[OF d] d c show ?thesis by blast
qed

text \<open>
  The claim as stated fails on the example feed with one value for its two periods: the
  parser returns a parameter with one value, whose layout has two periods.
\<close>

theorem parse_value_counts_counterexample:
  "parsed_counts isoparse_basic (feed_tree [''33'']) = Inr [(1, Some 2)]"
  by (simp add: parsed_counts_def example_parse_defs)


section \<open>The daily low\<close>

lemma find_append_cases:
  "List.find P (xs @ ys) = (case List.find P xs of None \<Rightarrow> List.find P ys | Some x \<Rightarrow> Some x)"
  by (induction xs) auto

lemma seed_lows_lookup:
  "seed_lows dailies acc = Inr seed \<Longrightarrow>
   map_of seed d = (case seed_value dailies d of None \<Rightarrow> map_of acc d | Some v \<Rightarrow> Some v)"
proof (induction dailies arbitrary: acc)
  case Nil
  then show ?case by (simp add: seed_value_def)
next
  case (Cons day days)
  from Cons.prems obtain e where e: "pv_end day = Some e"
    and r: "seed_lows days (AList.update (strftime_date e) (raw (pv_value day)) acc) = Inr seed"
    by (auto split: option.splits)
  from Cons.IH[OF r] e show ?case
    by (auto simp: seed_value_def find_append_cases ends_on_def update_conv'
             split: option.splits)
qed

lemma lower_at_lookup:
  assumes "lower_at N v date data = Inr data1"
  shows "map_of data1 d =
    (if d = date then
       (case map_of data date of
          None \<Rightarrow> None
        | Some stored \<Rightarrow>
            (case (py_int N v, py_int N stored) of
               (Inr h, Inr s) \<Rightarrow> Some (if h < s then v else stored)
             | _ \<Rightarrow> None))
     else map_of data d)"
  using assms
  by (auto simp: lower_at_def update_conv' split: option.splits sum.splits if_splits)

lemma lower_at_parses:
  assumes "lower_at N v date data = Inr data1" "map_of data date = Some stored"
  shows "\<exists>h s. py_int N v = Inr h \<and> py_int N stored = Inr s"
  using assms by (auto simp: lower_at_def split: option.splits sum.splits)

lemma low_hour_other:
  assumes "low_hour N hour data = Inr data1" "\<not> touches d hour"
  shows "map_of data1 d = map_of data d"
proof -
  from assms(1) obtain mid where
    m: "lower_at N (raw (pv_value hour)) (strftime_date (pv_start hour)) data = Inr mid"
    by (auto simp: low_hour_def split: sum.splits)
  from assms(2) have ns: "d \<noteq> strftime_date (pv_start hour)" by (auto simp: touches_def)
  have a: "map_of mid d = map_of data d" using lower_at_lookup[OF m, of d] ns by simp
  show ?thesis
  proof (cases "pv_end hour")
    case None
    with assms(1) m have "data1 = mid" by (simp add: low_hour_def)
    with a show ?thesis by simp
  next
    case (Some e)
    with assms(1) m have l: "lower_at N (raw (pv_value hour)) (strftime_date e) mid = Inr data1"
      by (simp add: low_hour_def)
    from assms(2) Some have "d \<noteq> strftime_date e" by (auto simp: touches_def ends_on_def)
    with lower_at_lookup[OF l, of d] a show ?thesis by simp
  qed
qed

lemma low_hour_touched:
  assumes lh: "low_hour N hour data = Inr data1" and t: "touches d hour"
    and st: "map_of data d = Some v0"
  shows "\<exists>i0 j. py_int N v0 = Inr i0 \<and> py_int N (raw (pv_value hour)) = Inr j \<and>
           map_of data1 d = Some (if j < i0 then raw (pv_value hour) else v0)"
proof -
  let ?v = "raw (pv_value hour) :: 'a pyval"
  let ?sd = "strftime_date (pv_start hour)"
  from lh obtain mid where m: "lower_at N ?v ?sd data = Inr mid"
    by (auto simp: low_hour_def split: sum.splits)
  show ?thesis
  proof (cases "d = ?sd")
    case True
    from lower_at_parses[OF m] st True obtain j i0 where
      p: "py_int N ?v = Inr j" "py_int N v0 = Inr i0" by auto
    have mid: "map_of mid d = Some (if j < i0 then ?v else v0)"
      using lower_at_lookup[OF m, of d] True st p by simp
    show ?thesis
    proof (cases "pv_end hour")
      case None
      with lh m have "data1 = mid" by (simp add: low_hour_def)
      with mid p show ?thesis by auto
    next
      case (Some e)
      with lh m have l: "lower_at N ?v (strftime_date e) mid = Inr data1"
        by (simp add: low_hour_def)
      have "map_of data1 d = Some (if j < i0 then ?v else v0)"
        using lower_at_lookup[OF l, of d] mid p by (auto split: if_splits)
      with p show ?thesis by auto
    qed
  next
    case False
    with t obtain e where e: "pv_end hour = Some e" "strftime_date e = d"
      by (auto simp: touches_def ends_on_def split: option.splits)
    have mid: "map_of mid d = Some v0" using lower_at_lookup[OF m, of d] False st by simp
    from lh m e have l: "lower_at N ?v d mid = Inr data1" by (simp add: low_hour_def)
    from lower_at_parses[OF l mid] obtain j i0 where
      p: "py_int N ?v = Inr j" "py_int N v0 = Inr i0" by auto
    have "map_of data1 d = Some (if j < i0 then ?v else v0)"
      using lower_at_lookup[OF l, of d] mid p by simp
    with p show ?thesis by auto
  qed
qed

lemma low_hour_absent:
  assumes "low_hour N hour data = Inr data1" "map_of data d = None"
  shows "map_of data1 d = None"
proof -
  from assms(1) obtain mid where
    m: "lower_at N (raw (pv_value hour)) (strftime_date (pv_start hour)) data = Inr mid"
    by (auto simp: low_hour_def split: sum.splits)
  have a: "map_of mid d = None" using lower_at_lookup[OF m, of d] assms(2) by (simp split: if_splits)
  show ?thesis
  proof (cases "pv_end hour")
    case None
    with assms(1) m have "data1 = mid" by (simp add: low_hour_def)
    with a show ?thesis by simp
  next
    case (Some e)
    with assms(1) m have l: "lower_at N (raw (pv_value hour)) (strftime_date e) mid = Inr data1"
      by (simp add: low_hour_def)
    from lower_at_lookup[OF l, of d] a show ?thesis by (simp split: if_splits)
  qed
qed

lemma lowest_of_step:
  assumes i0: "py_int N v0 = Inr i0" and j: "py_int N v = Inr j"
    and l: "lowest_of N (if j < i0 then v else v0) T r"
  shows "lowest_of N v0 (v # T) r"
proof (cases "T = []")
  case True
  with l have r: "r = (if j < i0 then v else v0)" by (simp add: lowest_of_def)
  show ?thesis
  proof (cases "j < i0")
    case True
    with r i0 j \<open>T = []\<close> show ?thesis by (auto simp: lowest_of_def)
  next
    case False
    with r i0 j \<open>T = []\<close> show ?thesis by (auto simp: lowest_of_def)
  qed
next
  case False
  let ?v1 = "if j < i0 then v else v0"
  have i1: "py_int N ?v1 = Inr (min j i0)" using i0 j by (auto simp: min_def)
  from l False obtain i1' i where
    h: "py_int N ?v1 = Inr i1'" "py_int N r = Inr i"
       "list_all (\<lambda>v. \<exists>j. py_int N v = Inr j \<and> i \<le> j) T"
       "i \<le> i1'" "i = i1' \<longrightarrow> r = ?v1" "i < i1' \<longrightarrow> r \<in> set T"
    unfolding lowest_of_def by auto
  from h(1) i1 have e: "i1' = min j i0" by simp
  have a: "list_all (\<lambda>v. \<exists>j. py_int N v = Inr j \<and> i \<le> j) (v # T)"
    using h(3,4) e j by auto
  have b: "i \<le> i0" using h(4) e by auto
  have c: "i = i0 \<longrightarrow> r = v0" using h(4,5) e by (auto simp: min_def split: if_splits)
  have d: "i < i0 \<longrightarrow> r \<in> set (v # T)" using h(4,5,6) e by (auto simp: min_def split: if_splits)
  show ?thesis unfolding lowest_of_def using i0 h(2) a b c d by auto
qed

lemma low_hours_lowest:
  "low_hours N hs data = Inr data1 \<Longrightarrow>
   (case map_of data d of
      None \<Rightarrow> map_of data1 d = None
    | Some v0 \<Rightarrow> (\<exists>r. map_of data1 d = Some r \<and> lowest_of N v0 (touching d hs) r))"
proof (induction hs arbitrary: data)
  case Nil
  then show ?case by (auto simp: touching_def lowest_of_def split: option.splits)
next
  case (Cons hour hs)
  from Cons.prems obtain mid where
    m: "low_hour N hour data = Inr mid" and r: "low_hours N hs mid = Inr data1"
    by (auto split: sum.splits)
  note ih = Cons.IH[OF r]
  show ?case
  proof (cases "map_of data d")
    case None
    from low_hour_absent[OF m None] ih None show ?thesis by simp
  next
    case (Some v0)
    show ?thesis
    proof (cases "touches d hour")
      case False
      from low_hour_other[OF m False] Some ih False show ?thesis
        by (simp add: touching_def)
    next
      case True
      from low_hour_touched[OF m True Some] obtain i0 j where
        p: "py_int N v0 = Inr i0" "py_int N (raw (pv_value hour)) = Inr j"
        and md: "map_of mid d = Some (if j < i0 then raw (pv_value hour) else v0)" by blast
      from ih md obtain r where
        r: "map_of data1 d = Some r"
           "lowest_of N (if j < i0 then raw (pv_value hour) else v0) (touching d hs) r"
        by auto
      have "touching d (hour # hs) = (raw (pv_value hour) :: 'a pyval) # touching d hs"
        using True by (simp add: touching_def)
      with lowest_of_step[OF p r(2)] r(1) Some show ?thesis by simp
    qed
  qed
qed

text \<open>
  Claim C4. When \<^verbatim>\<open>_daily_low\<close> returns, a date is a key of the result exactly when some
  daily minimum ends on it. The value stored for it starts as the value of the last
  daily minimum with that end date, is compared with every hourly sample that starts or
  ends on the date, and is replaced exactly when an hourly value is strictly lower as an
  integer: the result is the seed unless a touching hourly value is strictly lower, and
  then it is the lowest of them.
\<close>

theorem daily_low_lowest:
  assumes "daily_low N dailies hourlies = Inr data"
  shows "case seed_value dailies d of
           None \<Rightarrow> map_of data d = None
         | Some v0 \<Rightarrow> (\<exists>r. map_of data d = Some r \<and> lowest_of N v0 (touching d hourlies) r)"
proof -
  from assms obtain seed where
    s: "seed_lows dailies [] = Inr seed" and l: "low_hours N hourlies seed = Inr data"
    by (auto simp: daily_low_def split: sum.splits)
  have "map_of seed d = seed_value dailies d"
    using seed_lows_lookup[OF s, of d] by (simp split: option.splits)
  with low_hours_lowest[OF l, of d] show ?thesis by simp
qed

lemmas example_low_defs =
  daily_low_def low_hour_def lower_at_def stamp_def sample_def period_value_def
  strftime_date_def pad2_def pad4_def digit_def exact_numerics_def int_of_decimal_def
  nat_of_digits_def digit_value_def seed_value_def ends_on_def touches_def touching_def

text \<open>
  The example of the specification: a daily minimum of 30 valid from 2020-02-07 19:00 to
  2020-02-08 07:00. An hourly 28 at 2020-02-08 05:00 replaces it; an hourly 35 does not.
\<close>

theorem daily_low_lowest_witness:
  "daily_low exact_numerics
      [period_value ''30'' (stamp 2020 2 7 19 0) (stamp 2020 2 8 7 0)]
      [sample ''28'' (stamp 2020 2 8 5 0)]
     = Inr [(''2020-02-08'', PStr ''28'')]
   \<and> lowest_of exact_numerics (PStr ''30'') [PStr ''28''] (PStr ''28'')
   \<and> daily_low exact_numerics
      [period_value ''30'' (stamp 2020 2 7 19 0) (stamp 2020 2 8 7 0)]
      [sample ''35'' (stamp 2020 2 8 5 0)]
     = Inr [(''2020-02-08'', PStr ''30'')]
   \<and> lowest_of exact_numerics (PStr ''30'') [PStr ''35''] (PStr ''30'')"
proof -
  have a: "daily_low exact_numerics
      [period_value ''30'' (stamp 2020 2 7 19 0) (stamp 2020 2 8 7 0)]
      [sample ''28'' (stamp 2020 2 8 5 0)]
     = Inr [(''2020-02-08'', PStr ''28'')]"
    by (simp add: example_low_defs)
  have b: "daily_low exact_numerics
      [period_value ''30'' (stamp 2020 2 7 19 0) (stamp 2020 2 8 7 0)]
      [sample ''35'' (stamp 2020 2 8 5 0)]
     = Inr [(''2020-02-08'', PStr ''30'')]"
    by (simp add: example_low_defs)
  have a': "lowest_of exact_numerics (PStr ''30'') [PStr ''28''] (PStr ''28'')"
    using daily_low_lowest[OF a, of "''2020-02-08''"] by (simp add: example_low_defs)
  have b': "lowest_of exact_numerics (PStr ''30'') [PStr ''35''] (PStr ''30'')"
    using daily_low_lowest[OF b, of "''2020-02-08''"] by (simp add: example_low_defs)
  from a a' b b' show ?thesis by simp
qed


section \<open>The aggregator: which dates are in the result\<close>

lemma index_values_counts:
  "index_values N is_numeric skipper vs iv = Inr iv1 \<Longrightarrow>
   distinct (map fst iv) \<Longrightarrow> (\<forall>d l. map_of iv d = Some l \<longrightarrow> l \<noteq> []) \<Longrightarrow>
   distinct (map fst iv1) \<and> (\<forall>d l. map_of iv1 d = Some l \<longrightarrow> l \<noteq> []) \<and>
   (\<forall>d. (case map_of iv1 d of None \<Rightarrow> 0 | Some l \<Rightarrow> length l) =
         (case map_of iv d of None \<Rightarrow> 0 | Some l \<Rightarrow> length l)
           + length (kept_on N is_numeric skipper d vs))"
proof (induction vs arbitrary: iv)
  case Nil
  then show ?case by (simp add: kept_on_def)
next
  case (Cons v vs)
  show ?case
  proof (cases "is_numeric \<and> \<not> truthy N (raw (pv_value v))")
    case True
    then have nk: "\<not> kept N is_numeric skipper v" by (simp add: kept_def)
    from True Cons.prems(1) have r: "index_values N is_numeric skipper vs iv = Inr iv1" by simp
    from Cons.IH[OF r Cons.prems(2,3)] nk show ?thesis by (simp add: kept_on_def)
  next
    case False
    with Cons.prems(1) obtain skip where
      sk: "(case skipper of None \<Rightarrow> Inr False | Some sk \<Rightarrow> sk v) = Inr skip"
      by (auto split: sum.splits)
    show ?thesis
    proof (cases skip)
      case True
      with sk have nk: "\<not> kept N is_numeric skipper v"
        by (auto simp: kept_def split: option.splits)
      from False sk True Cons.prems(1) have r: "index_values N is_numeric skipper vs iv = Inr iv1"
        by (auto split: if_splits)
      from Cons.IH[OF r Cons.prems(2,3)] nk show ?thesis by (simp add: kept_on_def)
    next
      case nskip: False
      with sk False have k: "kept N is_numeric skipper v"
        by (auto simp: kept_def split: option.splits)
      let ?sd = "strftime_date (pv_start v)"
      let ?i1 = "if \<not> has_key iv ?sd then AList.update ?sd [] iv else iv"
      from False sk nskip Cons.prems(1) obtain val l where
        l: "map_of ?i1 ?sd = Some l"
        and r: "index_values N is_numeric skipper vs (AList.update ?sd (l @ [val]) ?i1) = Inr iv1"
        by (auto simp: Let_def split: sum.splits option.splits if_splits)
      let ?i2 = "AList.update ?sd (l @ [val]) ?i1"
      have d2: "distinct (map fst ?i2)" using Cons.prems(2) by (simp add: distinct_update)
      have m2: "map_of ?i2 = (map_of iv)(?sd \<mapsto> l @ [val])"
        by (auto simp: update_conv' has_key_def)
      have ne2: "\<forall>d l. map_of ?i2 d = Some l \<longrightarrow> l \<noteq> []"
        using Cons.prems(3) by (auto simp: m2)
      have ll: "length l = (case map_of iv ?sd of None \<Rightarrow> 0 | Some l \<Rightarrow> length l)"
        using l by (auto simp: has_key_def update_conv' split: if_splits option.splits)
      from Cons.IH[OF r d2 ne2] have
        a: "distinct (map fst iv1)" "\<forall>d l. map_of iv1 d = Some l \<longrightarrow> l \<noteq> []"
        and c: "\<And>d. (case map_of iv1 d of None \<Rightarrow> 0 | Some l \<Rightarrow> length l) =
             (case map_of ?i2 d of None \<Rightarrow> 0 | Some l \<Rightarrow> length l)
               + length (kept_on N is_numeric skipper d vs)" by auto
      have "\<And>d. (case map_of iv1 d of None \<Rightarrow> 0 | Some l \<Rightarrow> length l) =
             (case map_of iv d of None \<Rightarrow> 0 | Some l \<Rightarrow> length l)
               + length (kept_on N is_numeric skipper d (v # vs))"
      proof -
        fix d
        show "(case map_of iv1 d of None \<Rightarrow> 0 | Some l \<Rightarrow> length l) =
             (case map_of iv d of None \<Rightarrow> 0 | Some l \<Rightarrow> length l)
               + length (kept_on N is_numeric skipper d (v # vs))"
          using c[of d] k ll by (auto simp: m2 kept_on_def)
      qed
      with a show ?thesis by blast
    qed
  qed
qed

lemma reduce_dates_keys:
  "reduce_dates N function is_numeric decimal formatter min_values ivs data = Inr data1 \<Longrightarrow>
   fst ` set data1 = fst ` set data \<union>
     {d. \<exists>l. (d, l) \<in> set ivs \<and>
        \<not> (case min_values of None \<Rightarrow> False | Some m \<Rightarrow> m \<noteq> 0 \<and> int (length l) < m)}"
proof (induction ivs arbitrary: data)
  case Nil
  then show ?case by simp
next
  case (Cons dl ivs)
  obtain date l where dl: "dl = (date, l)" by (cases dl)
  show ?case
  proof (cases "case min_values of None \<Rightarrow> False | Some m \<Rightarrow> m \<noteq> 0 \<and> int (length l) < m")
    case True
    with Cons.prems dl have
      r: "reduce_dates N function is_numeric decimal formatter min_values ivs data = Inr data1"
      by simp
    have nd: "\<And>l'. \<not> (case min_values of None \<Rightarrow> False
                      | Some m \<Rightarrow> m \<noteq> 0 \<and> int (length l') < m) \<Longrightarrow> l' \<noteq> l"
      using True by auto
    from Cons.IH[OF r] dl True show ?thesis by (auto dest: nd)
  next
    case False
    with Cons.prems dl obtain val where
      r: "reduce_dates N function is_numeric decimal formatter min_values ivs
            (AList.update date val data) = Inr data1"
      by (auto split: sum.splits)
    from Cons.IH[OF r] dl False show ?thesis by (auto simp: dom_update)
  qed
qed

lemma reduce_dates_distinct:
  "reduce_dates N function is_numeric decimal formatter min_values ivs data = Inr data1 \<Longrightarrow>
   distinct (map fst data) \<Longrightarrow> distinct (map fst data1)"
proof (induction ivs arbitrary: data)
  case Nil
  then show ?case by simp
next
  case (Cons dl ivs)
  obtain date l where dl: "dl = (date, l)" by (cases dl)
  show ?case
  proof (cases "case min_values of None \<Rightarrow> False | Some m \<Rightarrow> m \<noteq> 0 \<and> int (length l) < m")
    case True
    with Cons.prems dl Cons.IH show ?thesis by simp
  next
    case False
    with Cons.prems dl obtain val where
      r: "reduce_dates N function is_numeric decimal formatter min_values ivs
            (AList.update date val data) = Inr data1"
      by (auto split: sum.splits)
    from Cons.IH[OF r] Cons.prems(2) show ?thesis by (simp add: distinct_update)
  qed
qed

lemma aggregate_keys:
  assumes "aggregate N values function is_numeric decimal skipper formatter min_values = Inr data"
  shows "distinct (map fst data)
    \<and> (\<forall>d. (map_of data d \<noteq> None) =
             qualifies min_values (length (kept_on N is_numeric skipper d values)))
    \<and> (\<forall>d. is_numeric \<and>
             list_all (\<lambda>v. strftime_date (pv_start v) = d \<longrightarrow> pv_value v = Some []) values
           \<longrightarrow> map_of data d = None)"
proof -
  from assms obtain iv where
    iv: "index_values N is_numeric skipper values [] = Inr iv"
    and rd: "reduce_dates N function is_numeric decimal formatter min_values iv [] = Inr data"
    by (auto simp: aggregate_def split: sum.splits)
  from index_values_counts[OF iv] have
    div: "distinct (map fst iv)" and ne: "\<forall>d l. map_of iv d = Some l \<longrightarrow> l \<noteq> []"
    and cnt: "\<And>d. (case map_of iv d of None \<Rightarrow> 0 | Some l \<Rightarrow> length l) =
                 length (kept_on N is_numeric skipper d values)" by auto
  have dd: "distinct (map fst data)" using reduce_dates_distinct[OF rd] by simp
  have keys: "fst ` set data = {d. \<exists>l. (d, l) \<in> set iv \<and>
        \<not> (case min_values of None \<Rightarrow> False | Some m \<Rightarrow> m \<noteq> 0 \<and> int (length l) < m)}"
    using reduce_dates_keys[OF rd] by simp
  have q: "\<And>d. (map_of data d \<noteq> None) =
             qualifies min_values (length (kept_on N is_numeric skipper d values))"
  proof -
    fix d
    have "(map_of data d \<noteq> None) = (d \<in> fst ` set data)"
      by (simp add: map_of_eq_None_iff)
    also have "\<dots> = (\<exists>l. map_of iv d = Some l \<and>
        \<not> (case min_values of None \<Rightarrow> False | Some m \<Rightarrow> m \<noteq> 0 \<and> int (length l) < m))"
      unfolding keys using div by auto
    also have "\<dots> = qualifies min_values (length (kept_on N is_numeric skipper d values))"
      using cnt[of d] ne by (cases "map_of iv d") (auto simp: qualifies_def split: option.splits)
    finally show "(map_of data d \<noteq> None) =
             qualifies min_values (length (kept_on N is_numeric skipper d values))" .
  qed
  have e: "\<And>d. is_numeric \<and>
             list_all (\<lambda>v. strftime_date (pv_start v) = d \<longrightarrow> pv_value v = Some []) values
           \<Longrightarrow> map_of data d = None"
  proof -
    fix d
    assume a: "is_numeric \<and>
             list_all (\<lambda>v. strftime_date (pv_start v) = d \<longrightarrow> pv_value v = Some []) values"
    then have "kept_on N is_numeric skipper d values = []"
      by (auto simp: kept_on_def kept_def list_all_iff filter_empty_conv)
    with q[of d] show "map_of data d = None" by (simp add: qualifies_def)
  qed
  from dd q e show ?thesis by blast
qed

lemma index_values_all_empty:
  "list_all (\<lambda>v. pv_value v = Some [] \<or> pv_value v = None) vs \<Longrightarrow>
   index_values N True skipper vs iv = Inr iv"
  by (induction vs) auto

text \<open>
  Claim C5. When \<^verbatim>\<open>_aggregate\<close> returns, the result has one entry per key, and a date is
  a key exactly when it qualifies: some value that starts on it was kept, and with a
  nonzero \<^verbatim>\<open>min_values\<close> at least that many were. A date whose values were all skipped or
  dropped, or too few, is absent. So with numeric coercion a date whose raw values are
  all empty strings is not in the result; and when every raw value of the series is
  empty, \<^verbatim>\<open>_aggregate\<close> returns the empty mapping.
\<close>

theorem aggregate_dates:
  "(aggregate N values function is_numeric decimal skipper formatter min_values = Inr data \<longrightarrow>
      distinct (map fst data)
      \<and> (\<forall>d. (map_of data d \<noteq> None) =
               qualifies min_values (length (kept_on N is_numeric skipper d values)))
      \<and> (\<forall>d. is_numeric \<and>
               list_all (\<lambda>v. strftime_date (pv_start v) = d \<longrightarrow> pv_value v = Some []) values
             \<longrightarrow> map_of data d = None))
   \<and> (list_all (\<lambda>v. pv_value v = Some [] \<or> pv_value v = None) values \<longrightarrow>
        aggregate N values function True decimal skipper formatter min_values = Inr [])"
proof (rule conjI)
  show "aggregate N values function is_numeric decimal skipper formatter min_values = Inr data \<longrightarrow>
      distinct (map fst data)
      \<and> (\<forall>d. (map_of data d \<noteq> None) =
               qualifies min_values (length (kept_on N is_numeric skipper d values)))
      \<and> (\<forall>d. is_numeric \<and>
               list_all (\<lambda>v. strftime_date (pv_start v) = d \<longrightarrow> pv_value v = Some []) values
             \<longrightarrow> map_of data d = None)"
    by (rule impI) (rule aggregate_keys)
next
  show "list_all (\<lambda>v. pv_value v = Some [] \<or> pv_value v = None) values \<longrightarrow>
        aggregate N values function True decimal skipper formatter min_values = Inr []"
    by (simp add: aggregate_def index_values_all_empty)
qed

lemmas example_aggregate_defs =
  aggregate_def apply_function_def py_sum_def has_key_def skip_empty_value_def
  rain_values_def period_value_def stamp_def strftime_date_def pad2_def pad4_def digit_def
  exact_numerics_def rat_of_decimal_def unsigned_decimal_def nat_of_digits_def
  digit_value_def round_rat_def round_half_even_def Let_def

text \<open>
  The daily rain recipe (sum, two decimals, empty values skipped, at least three values)
  on the example amounts: 2020-02-08 has three values and is in the result; 2020-02-09
  has two and 2020-02-10 has only empty values, and both are absent.
\<close>

theorem aggregate_dates_witness:
  "aggregate exact_numerics rain_values ''sum'' True 2 (Some skip_empty_value) None (Some 3)
     = Inr [(''2020-02-08'', PFloat (7 / 20))]
   \<and> qualifies (Some 3)
       (length (kept_on exact_numerics True (Some skip_empty_value) ''2020-02-08'' rain_values))
   \<and> \<not> qualifies (Some 3)
       (length (kept_on exact_numerics True (Some skip_empty_value) ''2020-02-09'' rain_values))
   \<and> \<not> qualifies (Some 3)
       (length (kept_on exact_numerics True (Some skip_empty_value) ''2020-02-10'' rain_values))"
proof -
  have ev: "aggregate exact_numerics rain_values ''sum'' True 2 (Some skip_empty_value) None
      (Some 3) = Inr [(''2020-02-08'', PFloat (7 / 20))]"
    by (simp add: example_aggregate_defs)
  from aggregate_dates[of exact_numerics rain_values "''sum''" True 2 "Some skip_empty_value"
      None "Some 3" "[(''2020-02-08'', PFloat (7 / 20))]"] ev
  have t: "\<forall>d. (map_of [(''2020-02-08'', PFloat (7 / 20 :: rat))] d \<noteq> None) =
      qualifies (Some 3)
        (length (kept_on exact_numerics True (Some skip_empty_value) d rain_values))"
    by blast
  from t have q: "\<And>d. (map_of [(''2020-02-08'', PFloat (7 / 20 :: rat))] d \<noteq> None) =
      qualifies (Some 3)
        (length (kept_on exact_numerics True (Some skip_empty_value) d rain_values))"
    by blast
  have a: "qualifies (Some 3)
       (length (kept_on exact_numerics True (Some skip_empty_value) ''2020-02-08'' rain_values))"
    using q[of "''2020-02-08''"] by simp
  have b: "\<not> qualifies (Some 3)
       (length (kept_on exact_numerics True (Some skip_empty_value) ''2020-02-09'' rain_values))"
    using q[of "''2020-02-09''"] by simp
  have c: "\<not> qualifies (Some 3)
       (length (kept_on exact_numerics True (Some skip_empty_value) ''2020-02-10'' rain_values))"
    using q[of "''2020-02-10''"] by simp
  from ev a b c show ?thesis by simp
qed


section \<open>Parameter lookup and the assembly\<close>

lemma and_then_Inr:
  "and_then m f = Inr r \<Longrightarrow> (\<And>x. m = Inr x \<Longrightarrow> f x = Inr r \<Longrightarrow> P) \<Longrightarrow> P"
  by (cases m) (auto simp: and_then_def)

lemma parameter_first:
  assumes "parameters d = pre @ p # post" "p_name p = Some name"
    "list_all (\<lambda>q. p_name q \<noteq> Some name) pre"
  shows "parameter d name = Inr p"
proof -
  have "filter (\<lambda>p. p_name p = Some name) pre = []"
    using assms(3) by (auto simp: list_all_iff filter_empty_conv)
  then show ?thesis using assms(1,2) by (simp add: parameter_def)
qed

lemma parameter_absent:
  assumes "list_all (\<lambda>q. p_name q \<noteq> Some name) (parameters d)"
  shows "parameter d name = Inl StopIteration"
proof -
  have "filter (\<lambda>p. p_name p = Some name) (parameters d) = []"
    using assms by (auto simp: list_all_iff filter_empty_conv)
  then show ?thesis by (simp add: parameter_def)
qed

lemma values_of_absent:
  assumes "map_of code_map code = Some name"
    "list_all (\<lambda>q. p_name q \<noteq> Some name) (parameters d)"
  shows "values_of d code = Inl StopIteration"
  using assms parameter_absent[OF assms(2)] by (simp add: values_of_def)

lemma daily_looks_up:
  assumes "daily N d = Inr r" "code \<in> set daily_codes"
  shows "\<exists>vs. values_of d code = Inr vs"
proof -
  from assms(1) have
    "(\<exists>vs. values_of d ''maxt'' = Inr vs) \<and> (\<exists>vs. values_of d ''mint'' = Inr vs) \<and>
     (\<exists>vs. values_of d ''temp'' = Inr vs) \<and> (\<exists>vs. values_of d ''pop12'' = Inr vs) \<and>
     (\<exists>vs. values_of d ''qpf'' = Inr vs) \<and> (\<exists>vs. values_of d ''snow'' = Inr vs) \<and>
     (\<exists>vs. values_of d ''rhm'' = Inr vs) \<and> (\<exists>vs. values_of d ''wgust'' = Inr vs) \<and>
     (\<exists>vs. values_of d ''wspd'' = Inr vs) \<and> (\<exists>vs. values_of d ''wx'' = Inr vs) \<and>
     (\<exists>vs. values_of d ''sym'' = Inr vs)"
    unfolding daily_def by (elim and_then_Inr) simp
  with assms(2) show ?thesis by (auto simp: daily_codes_def)
qed

lemma hourly_looks_up:
  assumes "hourly_of N d = Inr r"
  shows "\<exists>vs. values_of d ''sky'' = Inr vs"
  using assms unfolding hourly_of_def by (elim and_then_Inr) simp

lemma forecast_looks_up:
  assumes "forecast_of_doc N d = Inr r" "code \<in> set required_codes"
  shows "\<exists>vs. values_of d code = Inr vs"
proof -
  from assms(1) obtain dl h where "daily N d = Inr dl" "hourly_of N d = Inr h"
    unfolding forecast_of_doc_def by (elim and_then_Inr) simp
  with assms(2) daily_looks_up hourly_looks_up show ?thesis
    by (auto simp: required_codes_def)
qed

text \<open>
  Claim C6, amended. \<^verbatim>\<open>DwmlDoc.parameter\<close> returns the first parameter with the name and
  raises StopIteration when there is none. When the parameter of a code that \<^verbatim>\<open>_daily\<close>
  looks up is absent, \<^verbatim>\<open>_daily\<close> raises, and so does the whole assembly; the same holds
  for every code that the assembly looks up. No forecast is returned then. (The
  assembly also raises for other reasons: the converse does not hold.)
\<close>

theorem lookup_miss_aborts:
  "(\<forall>pre p post. parameters d = pre @ p # post \<and> p_name p = Some name \<and>
        list_all (\<lambda>q. p_name q \<noteq> Some name) pre \<longrightarrow> parameter d name = Inr p)
   \<and> (list_all (\<lambda>q. p_name q \<noteq> Some name) (parameters d) \<longrightarrow>
        parameter d name = Inl StopIteration)
   \<and> (\<forall>code. code \<in> set daily_codes \<and> map_of code_map code = Some name \<and>
        list_all (\<lambda>q. p_name q \<noteq> Some name) (parameters d) \<longrightarrow> isl (daily N d))
   \<and> (\<forall>code. code \<in> set required_codes \<and> map_of code_map code = Some name \<and>
        list_all (\<lambda>q. p_name q \<noteq> Some name) (parameters d) \<longrightarrow> isl (forecast_of_doc N d))"
proof (intro conjI allI impI)
  fix pre p post
  assume "parameters d = pre @ p # post \<and> p_name p = Some name \<and>
        list_all (\<lambda>q. p_name q \<noteq> Some name) pre"
  then show "parameter d name = Inr p" using parameter_first by blast
next
  assume "list_all (\<lambda>q. p_name q \<noteq> Some name) (parameters d)"
  then show "parameter d name = Inl StopIteration" by (rule parameter_absent)
next
  fix code
  assume a: "code \<in> set daily_codes \<and> map_of code_map code = Some name \<and>
        list_all (\<lambda>q. p_name q \<noteq> Some name) (parameters d)"
  then have v: "values_of d code = Inl StopIteration" using values_of_absent by blast
  show "isl (daily N d)"
  proof (cases "daily N d")
    case (Inl e)
    then show ?thesis by simp
  next
    case (Inr r)
    from daily_looks_up[OF Inr, of code] a v show ?thesis by auto
  qed
next
  fix code
  assume a: "code \<in> set required_codes \<and> map_of code_map code = Some name \<and>
        list_all (\<lambda>q. p_name q \<noteq> Some name) (parameters d)"
  then have v: "values_of d code = Inl StopIteration" using values_of_absent by blast
  show "isl (forecast_of_doc N d)"
  proof (cases "forecast_of_doc N d")
    case (Inl e)
    then show ?thesis by simp
  next
    case (Inr r)
    from forecast_looks_up[OF Inr, of code] a v show ?thesis by auto
  qed
qed

lemmas example_doc_defs =
  doc_with_def codes_def code_map_def values_of_def parameter_def missing_codes_def
  required_codes_def daily_codes_def

text \<open>
  A feed without the gust element: the lookup of its name fails, and neither \<^verbatim>\<open>_daily\<close>
  nor the whole assembly returns a forecast.
\<close>

theorem lookup_miss_aborts_witness:
  "parameter (doc_with [''Wind Speed Gust''] []) ''Wind Speed Gust'' = Inl StopIteration
   \<and> isl (daily exact_numerics (doc_with [''Wind Speed Gust''] []))
   \<and> isl (forecast_of_doc exact_numerics (doc_with [''Wind Speed Gust''] []))
   \<and> missing_codes (doc_with [''Wind Speed Gust''] []) = [''wgust'']"
proof -
  let ?d = "doc_with [''Wind Speed Gust''] []"
  note t = lookup_miss_aborts[of ?d "''Wind Speed Gust''" exact_numerics]
  have ab: "list_all (\<lambda>q. p_name q \<noteq> Some ''Wind Speed Gust'') (parameters ?d)"
    by (simp add: doc_with_def codes_def)
  have cm: "map_of code_map ''wgust'' = Some ''Wind Speed Gust''"
    by (simp add: code_map_def codes_def)
  have c1: "''wgust'' \<in> set daily_codes" by (simp add: daily_codes_def)
  have c2: "''wgust'' \<in> set required_codes" by (simp add: required_codes_def daily_codes_def)
  from t ab have a: "parameter ?d ''Wind Speed Gust'' = Inl StopIteration" by blast
  from t ab cm c1 have b: "isl (daily exact_numerics ?d)" by blast
  from t ab cm c2 have c: "isl (forecast_of_doc exact_numerics ?d)" by blast
  have m: "missing_codes ?d = [''wgust'']" by (simp add: example_doc_defs)
  from a b c m show ?thesis by simp
qed

text \<open>
  The claim as stated says that the assembly raises only when a required element is
  absent. In this document every required element is present (no code is missing) and
  the daily minimum has a value without end time: \<^verbatim>\<open>day.end.strftime\<close> raises
  AttributeError in \<^verbatim>\<open>_daily_low\<close>, and \<^verbatim>\<open>_daily\<close> returns nothing.
\<close>

theorem lookup_miss_aborts_counterexample:
  "missing_codes (doc_with [] [sample ''30'' (stamp 2020 2 8 5 0)]) = []
   \<and> daily exact_numerics (doc_with [] [sample ''30'' (stamp 2020 2 8 5 0)]) = Inl AttributeError"
proof -
  let ?d = "doc_with [] [sample ''30'' (stamp 2020 2 8 5 0)]"
  have m: "missing_codes ?d = []" by (simp add: example_doc_defs)
  have v1: "values_of ?d ''maxt'' = Inr []" by (simp add: example_doc_defs)
  have v2: "values_of ?d ''mint'' = Inr [sample ''30'' (stamp 2020 2 8 5 0)]"
    by (simp add: example_doc_defs)
  have v3: "values_of ?d ''temp'' = Inr []" by (simp add: example_doc_defs)
  have ag: "aggregate exact_numerics [] ''first'' True 0 None None None = Inr []"
    by (simp add: aggregate_def)
  have dl: "daily_low exact_numerics [sample ''30'' (stamp 2020 2 8 5 0)] [] = Inl AttributeError"
    by (simp add: daily_low_def sample_def)
  have "daily exact_numerics ?d = Inl AttributeError"
    unfolding daily_def v1 v2 v3 by (simp add: and_then_def ag dl)
  with m show ?thesis by simp
qed


section \<open>Post-processing: the two loops are one pass over the ordered slots\<close>

lemma pass_keys: "pass N c xs = Inr (c1, outs) \<Longrightarrow> map fst outs = map fst xs"
proof (induction xs arbitrary: c outs)
  case Nil
  then show ?case by simp
next
  case (Cons x xs)
  obtain k s where x: "x = (k, s)" by (cases x)
  from Cons.prems x obtain c' s1 outs' where
    "cleanup_slot N c s = Inr (c', s1)" and r: "pass N c' xs = Inr (c1, outs')"
    and o: "outs = (k, s1) # outs'"
    by (auto split: sum.splits)
  from Cons.IH[OF r] o x show ?case by simp
qed

lemma pass_append:
  "pass N c (xs @ ys) =
     (case pass N c xs of
        Inl e \<Rightarrow> Inl e
      | Inr (c1, o1) \<Rightarrow>
          (case pass N c1 ys of Inl e \<Rightarrow> Inl e | Inr (c2, o2) \<Rightarrow> Inr (c2, o1 @ o2)))"
proof (induction xs arbitrary: c)
  case Nil
  show ?case by (simp split: sum.splits)
next
  case (Cons x xs)
  obtain k s where x: "x = (k, s)" by (cases x)
  show ?case using Cons.IH x by (simp split: sum.splits prod.splits)
qed

lemma pass_rekey:
  "pass N c (map (\<lambda>(t, s). (f t, s)) xs) =
     (case pass N c xs of
        Inl e \<Rightarrow> Inl e
      | Inr (c1, outs) \<Rightarrow> Inr (c1, map (\<lambda>(t, s). (f t, s)) outs))"
proof (induction xs arbitrary: c)
  case Nil
  show ?case by simp
next
  case (Cons x xs)
  obtain k s where x: "x = (k, s)" by (cases x)
  show ?case using Cons.IH x by (simp split: sum.splits prod.splits)
qed

lemma pass_split:
  assumes "pass N c (pre @ (k, s) # post) = Inr (c3, outs)"
  shows "\<exists>c1 c2 s1 o1 o2. pass N c pre = Inr (c1, o1) \<and> cleanup_slot N c1 s = Inr (c2, s1) \<and>
           pass N c2 post = Inr (c3, o2) \<and> outs = o1 @ (k, s1) # o2"
  using assms unfolding pass_append
  by (auto split: sum.splits prod.splits)

lemma map_insort_key: "map f (insort_key f x xs) = insort (f x) (map f xs)"
  by (induction xs) auto

lemma map_sort_key: "map f (sort_key f xs) = sort (map f xs)"
  by (induction xs) (auto simp: map_insort_key)

lemma sorted_entries:
  assumes "distinct (map fst xs)"
  shows "map (\<lambda>k. (k, get_or_empty xs k)) (sort (map fst xs)) = sort_key fst xs"
proof -
  have "map (\<lambda>k. (k, get_or_empty xs k)) (sort (map fst xs))
      = map (\<lambda>k. (k, get_or_empty xs k)) (map fst (sort_key fst xs))"
    by (simp add: map_sort_key)
  also have "\<dots> = map (\<lambda>p. (fst p, get_or_empty xs (fst p))) (sort_key fst xs)"
    by (simp add: comp_def)
  also have "\<dots> = map (\<lambda>p. p) (sort_key fst xs)"
  proof (rule map_cong[OF refl])
    fix p assume "p \<in> set (sort_key fst xs)"
    then have "p \<in> set xs" by simp
    then have "map_of xs (fst p) = Some (snd p)"
      using assms by (metis map_of_eq_Some_iff prod.collapse)
    then show "(fst p, get_or_empty xs (fst p)) = p" by (cases p) (simp add: get_or_empty_def)
  qed
  finally show ?thesis by simp
qed

lemma cleanup_times_pass:
  "cleanup_times N ts c td = Inr (c1, td1) \<Longrightarrow> distinct ts \<Longrightarrow>
   \<exists>outs. pass N c (map (\<lambda>t. (t, get_or_empty td t)) ts) = Inr (c1, outs) \<and>
     (\<forall>t. map_of td1 t =
        (if t \<in> set ts then
           (case map_of outs t of
              None \<Rightarrow> None
            | Some s1 \<Rightarrow> if has_key s1 ''temp'' then Some s1 else None)
         else map_of td t))"
proof (induction ts arbitrary: c td)
  case Nil
  then show ?case by simp
next
  case (Cons t ts)
  from Cons.prems(1) obtain slot c' slot1 where
    sl: "map_of td t = Some slot" and cs: "cleanup_slot N c slot = Inr (c', slot1)"
    and r: "cleanup_times N ts c'
              (if \<not> has_key slot1 ''temp'' then AList.delete t td else AList.update t slot1 td)
            = Inr (c1, td1)"
    by (auto split: option.splits sum.splits)
  let ?td = "if \<not> has_key slot1 ''temp'' then AList.delete t td else AList.update t slot1 td"
  from Cons.prems(2) have nt: "t \<notin> set ts" and dts: "distinct ts" by auto
  from Cons.IH[OF r dts] obtain outs where
    p: "pass N c' (map (\<lambda>t. (t, get_or_empty ?td t)) ts) = Inr (c1, outs)"
    and l: "\<And>u. map_of td1 u =
        (if u \<in> set ts then
           (case map_of outs u of
              None \<Rightarrow> None
            | Some s1 \<Rightarrow> if has_key s1 ''temp'' then Some s1 else None)
         else map_of ?td u)" by blast
  have other: "\<And>u. u \<noteq> t \<Longrightarrow> map_of ?td u = map_of td u"
    by (simp add: update_conv' delete_conv')
  have here: "map_of ?td t = (if has_key slot1 ''temp'' then Some slot1 else None)"
    by (simp add: update_conv' delete_conv')
  have same: "map (\<lambda>t. (t, get_or_empty ?td t)) ts = map (\<lambda>t. (t, get_or_empty td t)) ts"
  proof (rule map_cong[OF refl])
    fix u assume "u \<in> set ts"
    with nt have "u \<noteq> t" by auto
    from other[OF this] show "(u, get_or_empty ?td u) = (u, get_or_empty td u)"
      by (simp add: get_or_empty_def)
  qed
  have p': "pass N c (map (\<lambda>t. (t, get_or_empty td t)) (t # ts)) = Inr (c1, (t, slot1) # outs)"
  proof -
    have g: "get_or_empty td t = slot" by (simp add: get_or_empty_def sl)
    show ?thesis using cs p[unfolded same] g by simp
  qed
  have l': "\<And>u. map_of td1 u =
        (if u \<in> set (t # ts) then
           (case map_of ((t, slot1) # outs) u of
              None \<Rightarrow> None
            | Some s1 \<Rightarrow> if has_key s1 ''temp'' then Some s1 else None)
         else map_of td u)"
  proof -
    fix u
    show "map_of td1 u =
        (if u \<in> set (t # ts) then
           (case map_of ((t, slot1) # outs) u of
              None \<Rightarrow> None
            | Some s1 \<Rightarrow> if has_key s1 ''temp'' then Some s1 else None)
         else map_of td u)"
    proof (cases "u = t")
      case True
      with l[of u] nt here show ?thesis by simp
    next
      case False
      with l[of u] other[OF False] show ?thesis by simp
    qed
  qed
  from p' l' show ?case by blast
qed

lemma map_of_rekey:
  "map_of (map (\<lambda>(t, s). ((d, t), s)) xs) (d', t') = (if d' = d then map_of xs t' else None)"
  by (induction xs) auto

lemma date_slots_keys: "map fst (date_slots d tms) = map (Pair d) (sort (map fst tms))"
proof -
  have "map fst (date_slots d tms) = map (Pair d) (map fst (sort_key fst tms))"
    by (simp add: date_slots_def comp_def case_prod_beta)
  then show ?thesis by (simp add: map_sort_key)
qed

lemma flat_dates:
  assumes "(d', t) \<in> fst ` set (concat (map (\<lambda>d. date_slots d (g d)) ds))"
  shows "d' \<in> set ds"
proof -
  from assms obtain d where "d \<in> set ds" "(d', t) \<in> fst ` set (date_slots d (g d))" by auto
  moreover have "fst ` set (date_slots d (g d)) = set (map fst (date_slots d (g d)))" by simp
  ultimately show ?thesis unfolding date_slots_keys by auto
qed

lemma pass_date:
  assumes "cleanup_times N (sort (map fst tms)) c tms = Inr (c1, tms1)"
    and "distinct (map fst tms)"
  shows "\<exists>o1. pass N c (date_slots d tms) = Inr (c1, map (\<lambda>(t, s). ((d, t), s)) o1) \<and>
           (\<forall>t. map_of tms1 t =
              (case map_of o1 t of
                 None \<Rightarrow> None
               | Some s1 \<Rightarrow> if has_key s1 ''temp'' then Some s1 else None))"
proof -
  have ds: "distinct (sort (map fst tms))" using assms(2) by simp
  from cleanup_times_pass[OF assms(1) ds] obtain o1 where
    p: "pass N c (map (\<lambda>t. (t, get_or_empty tms t)) (sort (map fst tms))) = Inr (c1, o1)"
    and l: "\<And>t. map_of tms1 t =
        (if t \<in> set (sort (map fst tms)) then
           (case map_of o1 t of
              None \<Rightarrow> None
            | Some s1 \<Rightarrow> if has_key s1 ''temp'' then Some s1 else None)
         else map_of tms t)" by blast
  from p have p1: "pass N c (sort_key fst tms) = Inr (c1, o1)"
    by (simp add: sorted_entries[OF assms(2)])
  have k: "map fst o1 = sort (map fst tms)"
    using pass_keys[OF p1] by (simp add: map_sort_key)
  have a: "pass N c (date_slots d tms) = Inr (c1, map (\<lambda>(t, s). ((d, t), s)) o1)"
    unfolding date_slots_def pass_rekey[of N c "Pair d"] by (simp add: p1)
  have b: "\<And>t. map_of tms1 t =
              (case map_of o1 t of
                 None \<Rightarrow> None
               | Some s1 \<Rightarrow> if has_key s1 ''temp'' then Some s1 else None)"
  proof -
    fix t
    show "map_of tms1 t =
              (case map_of o1 t of
                 None \<Rightarrow> None
               | Some s1 \<Rightarrow> if has_key s1 ''temp'' then Some s1 else None)"
    proof (cases "t \<in> set (map fst tms)")
      case True
      with l[of t] show ?thesis by simp
    next
      case False
      then have "map_of tms t = None" by (simp add: map_of_eq_None_iff)
      moreover from False k have "map_of o1 t = None"
        by (metis map_of_eq_None_iff set_map set_sort)
      ultimately show ?thesis using l[of t] False by simp
    qed
  qed
  from a b show ?thesis by blast
qed

lemma cleanup_dates_pass:
  "cleanup_dates N ds c h = Inr (c1, h1) \<Longrightarrow> distinct ds \<Longrightarrow>
   (\<forall>d \<in> set ds. \<forall>tms. map_of h d = Some tms \<longrightarrow> distinct (map fst tms)) \<Longrightarrow>
   \<exists>outs. pass N c (concat (map (\<lambda>d. date_slots d (get_or_empty h d)) ds)) = Inr (c1, outs) \<and>
     (\<forall>d t. slot_at h1 d t =
        (if d \<in> set ds then
           (case map_of outs (d, t) of
              None \<Rightarrow> None
            | Some s1 \<Rightarrow> if has_key s1 ''temp'' then Some s1 else None)
         else slot_at h d t))"
proof (induction ds arbitrary: c h)
  case Nil
  then show ?case by simp
next
  case (Cons d ds)
  from Cons.prems(1) obtain tms c' tms1 where
    tm: "map_of h d = Some tms"
    and ct: "cleanup_times N (sort (map fst tms)) c tms = Inr (c', tms1)"
    and r: "cleanup_dates N ds c' (AList.update d tms1 h) = Inr (c1, h1)"
    by (auto split: option.splits sum.splits)
  let ?h = "AList.update d tms1 h"
  from Cons.prems(2) have nd: "d \<notin> set ds" and dds: "distinct ds" by auto
  have dt: "distinct (map fst tms)" using Cons.prems(3) tm by auto
  have other: "\<And>u. u \<noteq> d \<Longrightarrow> map_of ?h u = map_of h u" by (simp add: update_conv')
  have pre: "\<forall>u \<in> set ds. \<forall>tms. map_of ?h u = Some tms \<longrightarrow> distinct (map fst tms)"
  proof (intro ballI allI impI)
    fix u tms' assume u: "u \<in> set ds" and m: "map_of ?h u = Some tms'"
    from u nd have "u \<noteq> d" by auto
    from other[OF this] m have "map_of h u = Some tms'" by simp
    with Cons.prems(3) u show "distinct (map fst tms')" by auto
  qed
  from Cons.IH[OF r dds pre] obtain outs' where
    p: "pass N c' (concat (map (\<lambda>d. date_slots d (get_or_empty ?h d)) ds)) = Inr (c1, outs')"
    and l: "\<And>u t. slot_at h1 u t =
        (if u \<in> set ds then
           (case map_of outs' (u, t) of
              None \<Rightarrow> None
            | Some s1 \<Rightarrow> if has_key s1 ''temp'' then Some s1 else None)
         else slot_at ?h u t)" by blast
  have same: "map (\<lambda>d. date_slots d (get_or_empty ?h d)) ds
            = map (\<lambda>d. date_slots d (get_or_empty h d)) ds"
  proof (rule map_cong[OF refl])
    fix u assume "u \<in> set ds"
    with nd have "u \<noteq> d" by auto
    from other[OF this] show "date_slots u (get_or_empty ?h u) = date_slots u (get_or_empty h u)"
      by (simp add: get_or_empty_def)
  qed
  from pass_date[OF ct dt, of d] obtain o1 where
    a: "pass N c (date_slots d tms) = Inr (c', map (\<lambda>(t, s). ((d, t), s)) o1)"
    and b: "\<And>t. map_of tms1 t =
              (case map_of o1 t of
                 None \<Rightarrow> None
               | Some s1 \<Rightarrow> if has_key s1 ''temp'' then Some s1 else None)" by blast
  let ?outs = "map (\<lambda>(t, s). ((d, t), s)) o1 @ outs'"
  have g: "get_or_empty h d = tms" by (simp add: get_or_empty_def tm)
  have p': "pass N c (concat (map (\<lambda>d. date_slots d (get_or_empty h d)) (d # ds)))
            = Inr (c1, ?outs)"
    using a p[unfolded same] g by (simp add: pass_append)
  have keys': "map fst outs' = map fst (concat (map (\<lambda>d. date_slots d (get_or_empty h d)) ds))"
    using pass_keys[OF p[unfolded same]] .
  have none': "\<And>t. map_of outs' (d, t) = None"
  proof -
    fix t
    have "(d, t) \<notin> fst ` set outs'"
    proof
      assume "(d, t) \<in> fst ` set outs'"
      then have "(d, t) \<in> set (map fst outs')" by simp
      then have "(d, t) \<in> fst ` set (concat (map (\<lambda>d. date_slots d (get_or_empty h d)) ds))"
        unfolding keys' by simp
      from flat_dates[OF this] nd show False by simp
    qed
    then show "map_of outs' (d, t) = None" by (simp add: map_of_eq_None_iff)
  qed
  have l': "\<And>u t. slot_at h1 u t =
        (if u \<in> set (d # ds) then
           (case map_of ?outs (u, t) of
              None \<Rightarrow> None
            | Some s1 \<Rightarrow> if has_key s1 ''temp'' then Some s1 else None)
         else slot_at h u t)"
  proof -
    fix u t
    show "slot_at h1 u t =
        (if u \<in> set (d # ds) then
           (case map_of ?outs (u, t) of
              None \<Rightarrow> None
            | Some s1 \<Rightarrow> if has_key s1 ''temp'' then Some s1 else None)
         else slot_at h u t)"
    proof (cases "u = d")
      case True
      have "slot_at h1 d t = slot_at ?h d t" using l[of d t] nd by simp
      also have "\<dots> = map_of tms1 t" by (simp add: slot_at_def update_conv')
      also have "\<dots> = (case map_of o1 t of
                 None \<Rightarrow> None
               | Some s1 \<Rightarrow> if has_key s1 ''temp'' then Some s1 else None)" by (rule b)
      also have "map_of o1 t = map_of ?outs (d, t)"
        by (simp add: map_add_def map_of_rekey none' split: option.splits)
      finally show ?thesis using True by simp
    next
      case False
      have m: "map_of ?outs (u, t) = map_of outs' (u, t)"
        using False by (simp add: map_add_def map_of_rekey)
      have "slot_at ?h u t = slot_at h u t" using other[OF False] by (simp add: slot_at_def)
      with l[of u t] m False show ?thesis by simp
    qed
  qed
  from p' l' show ?case by blast
qed

lemma ordered_slots_by_dates:
  assumes "distinct (map fst h)"
  shows "ordered_slots h =
           concat (map (\<lambda>d. date_slots d (get_or_empty h d)) (sort (map fst h)))"
proof -
  have "map (\<lambda>(d, tms). date_slots d tms) (sort_key fst h)
      = map (\<lambda>(d, tms). date_slots d tms)
          (map (\<lambda>k. (k, get_or_empty h k)) (sort (map fst h)))"
    by (simp add: sorted_entries[OF assms])
  also have "\<dots> = map (\<lambda>d. date_slots d (get_or_empty h d)) (sort (map fst h))"
    by (simp add: comp_def)
  finally show ?thesis by (simp add: ordered_slots_def)
qed

lemma date_slots_set: "set (date_slots d tms) = (\<lambda>(t, s). ((d, t), s)) ` set tms"
  by (simp add: date_slots_def)

lemma entries_set:
  "(((d, t), s) \<in> set (concat (map (\<lambda>(d, tms). date_slots d tms) es)))
     = (\<exists>tms. (d, tms) \<in> set es \<and> (t, s) \<in> set tms)"
proof (induction es)
  case Nil
  show ?case by simp
next
  case (Cons e es)
  obtain d' tms' where e: "e = (d', tms')" by (cases e)
  have "(((d, t), s) \<in> set (date_slots d' tms')) = (d = d' \<and> (t, s) \<in> set tms')"
    by (auto simp: date_slots_set)
  with Cons.IH e show ?case by auto
qed

lemma entries_keys_distinct:
  "distinct (map fst es) \<Longrightarrow> list_all (\<lambda>(d, tms). distinct (map fst tms)) es \<Longrightarrow>
   distinct (map fst (concat (map (\<lambda>(d, tms). date_slots d tms) es)))"
proof (induction es)
  case Nil
  then show ?case by simp
next
  case (Cons e es)
  obtain d tms where e: "e = (d, tms)" by (cases e)
  from Cons.prems e have d1: "distinct (map fst (date_slots d tms))"
    by (simp add: date_slots_keys distinct_map inj_on_def)
  from Cons.prems have d2: "distinct (map fst (concat (map (\<lambda>(d, tms). date_slots d tms) es)))"
    using Cons.IH by simp
  have disj: "set (map fst (date_slots d tms))
        \<inter> set (map fst (concat (map (\<lambda>(d, tms). date_slots d tms) es))) = {}"
  proof (rule ccontr)
    assume "set (map fst (date_slots d tms))
        \<inter> set (map fst (concat (map (\<lambda>(d, tms). date_slots d tms) es))) \<noteq> {}"
    then obtain k where k1: "k \<in> set (map fst (date_slots d tms))"
      and k2: "k \<in> set (map fst (concat (map (\<lambda>(d, tms). date_slots d tms) es)))" by blast
    from k1 have fk: "fst k = d" unfolding date_slots_keys by auto
    from k2 obtain s where "(k, s) \<in> set (concat (map (\<lambda>(d, tms). date_slots d tms) es))"
      by force
    then have "((fst k, snd k), s) \<in> set (concat (map (\<lambda>(d, tms). date_slots d tms) es))"
      by simp
    then obtain tms' where "(fst k, tms') \<in> set es" unfolding entries_set by blast
    then have "fst k \<in> fst ` set es" by force
    with fk Cons.prems(1) e show False by simp
  qed
  from d1 d2 disj e show ?case by simp
qed

lemma ordered_slots_distinct:
  assumes "well_formed h"
  shows "distinct (map fst (ordered_slots h))"
proof -
  have a: "distinct (map fst (sort_key fst h))"
    using assms by (simp add: well_formed_def map_sort_key)
  have b: "list_all (\<lambda>(d, tms). distinct (map fst tms)) (sort_key fst h)"
    using assms by (simp add: well_formed_def list_all_iff)
  from entries_keys_distinct[OF a b] show ?thesis by (simp add: ordered_slots_def)
qed

lemma ordered_slots_member:
  assumes "well_formed h"
  shows "(((d, t), s) \<in> set (ordered_slots h)) = (slot_at h d t = Some s)"
proof -
  have dh: "distinct (map fst h)" using assms by (simp add: well_formed_def)
  have "(((d, t), s) \<in> set (ordered_slots h))
      = (\<exists>tms. (d, tms) \<in> set h \<and> (t, s) \<in> set tms)"
    unfolding ordered_slots_def entries_set by simp
  also have "\<dots> = (\<exists>tms. map_of h d = Some tms \<and> map_of tms t = Some s)"
  proof
    assume "\<exists>tms. (d, tms) \<in> set h \<and> (t, s) \<in> set tms"
    then obtain tms where m: "(d, tms) \<in> set h" "(t, s) \<in> set tms" by blast
    from m(1) assms have "distinct (map fst tms)" by (auto simp: well_formed_def list_all_iff)
    with m dh show "\<exists>tms. map_of h d = Some tms \<and> map_of tms t = Some s" by auto
  next
    assume "\<exists>tms. map_of h d = Some tms \<and> map_of tms t = Some s"
    then show "\<exists>tms. (d, tms) \<in> set h \<and> (t, s) \<in> set tms" by (auto dest: map_of_SomeD)
  qed
  also have "\<dots> = (slot_at h d t = Some s)" by (auto simp: slot_at_def split: option.splits)
  finally show ?thesis .
qed

lemma cleanup_pass:
  assumes wf: "well_formed (fc_hourly data)" and cl: "cleanup N data = Inr data1"
  shows "\<exists>c1 outs. pass N carry0 (ordered_slots (fc_hourly data)) = Inr (c1, outs) \<and>
           fc_daily data1 = fc_daily data \<and>
           (\<forall>d t. slot_at (fc_hourly data1) d t =
              (case map_of outs (d, t) of
                 None \<Rightarrow> None
               | Some s1 \<Rightarrow> if has_key s1 ''temp'' then Some s1 else None))"
proof -
  let ?h = "fc_hourly data"
  from cl obtain c1 h1 where
    cd: "cleanup_dates N (sort (map fst ?h)) carry0 ?h = Inr (c1, h1)"
    and d1: "data1 = data\<lparr>fc_hourly := h1\<rparr>"
    by (auto simp: cleanup_def split: sum.splits)
  have dh: "distinct (map fst ?h)" using wf by (simp add: well_formed_def)
  have ds: "distinct (sort (map fst ?h))" using dh by simp
  have dt: "\<forall>d \<in> set (sort (map fst ?h)). \<forall>tms. map_of ?h d = Some tms \<longrightarrow> distinct (map fst tms)"
    using wf by (auto simp: well_formed_def list_all_iff dest: map_of_SomeD)
  from cleanup_dates_pass[OF cd ds dt] obtain outs where
    p: "pass N carry0 (ordered_slots ?h) = Inr (c1, outs)"
    and l: "\<And>d t. slot_at h1 d t =
        (if d \<in> set (sort (map fst ?h)) then
           (case map_of outs (d, t) of
              None \<Rightarrow> None
            | Some s1 \<Rightarrow> if has_key s1 ''temp'' then Some s1 else None)
         else slot_at ?h d t)"
    unfolding ordered_slots_by_dates[OF dh] by blast
  have l': "\<And>d t. slot_at (fc_hourly data1) d t =
              (case map_of outs (d, t) of
                 None \<Rightarrow> None
               | Some s1 \<Rightarrow> if has_key s1 ''temp'' then Some s1 else None)"
  proof -
    fix d t
    show "slot_at (fc_hourly data1) d t =
              (case map_of outs (d, t) of
                 None \<Rightarrow> None
               | Some s1 \<Rightarrow> if has_key s1 ''temp'' then Some s1 else None)"
    proof (cases "d \<in> set (map fst ?h)")
      case True
      with l[of d t] d1 show ?thesis by simp
    next
      case False
      then have "map_of ?h d = None" by (simp add: map_of_eq_None_iff)
      then have a: "slot_at ?h d t = None" by (simp add: slot_at_def)
      have "(d, t) \<notin> fst ` set outs"
      proof
        assume "(d, t) \<in> fst ` set outs"
        then have "(d, t) \<in> set (map fst outs)" by simp
        then have "(d, t) \<in> fst ` set (ordered_slots ?h)"
          unfolding pass_keys[OF p] by simp
        then have "(d, t) \<in> fst ` set (concat (map (\<lambda>d. date_slots d (get_or_empty ?h d))
              (sort (map fst ?h))))"
          unfolding ordered_slots_by_dates[OF dh] .
        from flat_dates[OF this] False show False by simp
      qed
      then have "map_of outs (d, t) = None" by (simp add: map_of_eq_None_iff)
      with l[of d t] a False d1 show ?thesis by simp
    qed
  qed
  from p d1 l' show ?thesis by auto
qed

lemma cleanup_slot_at:
  assumes wf: "well_formed (fc_hourly data)" and cl: "cleanup N data = Inr data1"
    and os: "ordered_slots (fc_hourly data) = pre @ ((d, t), s) # post"
  shows "\<exists>c c2 s1 o1. pass N carry0 pre = Inr (c, o1) \<and> cleanup_slot N c s = Inr (c2, s1) \<and>
           slot_at (fc_hourly data1) d t = (if has_key s1 ''temp'' then Some s1 else None)"
proof -
  from cleanup_pass[OF wf cl] obtain c1 outs where
    p: "pass N carry0 (ordered_slots (fc_hourly data)) = Inr (c1, outs)"
    and l: "\<And>d t. slot_at (fc_hourly data1) d t =
              (case map_of outs (d, t) of
                 None \<Rightarrow> None
               | Some s1 \<Rightarrow> if has_key s1 ''temp'' then Some s1 else None)" by blast
  from pass_split[OF p[unfolded os]] obtain c c2 s1 o1 o2 where
    a: "pass N carry0 pre = Inr (c, o1)" and b: "cleanup_slot N c s = Inr (c2, s1)"
    and o: "outs = o1 @ ((d, t), s1) # o2" by blast
  have "distinct (map fst (pre @ ((d, t), s) # post))"
    using ordered_slots_distinct[OF wf] os by simp
  then have "(d, t) \<notin> set (map fst pre)" by auto
  then have "(d, t) \<notin> fst ` set o1" using pass_keys[OF a] by (metis set_map)
  then have "map_of o1 (d, t) = None" by (simp add: map_of_eq_None_iff)
  then have "map_of outs (d, t) = Some s1" using o by (simp add: map_add_def)
  with l[of d t] a b show ?thesis by auto
qed

lemma precip_step_result:
  assumes "precip_step N tmp s = (tmp1, s1)"
  shows "map_of s1 ''precip'' =
           (if truthy N tmp \<and> reported N ''precip'' s = None then Some tmp
            else map_of s ''precip'')"
    and "tmp1 = (case reported N ''precip'' s of None \<Rightarrow> tmp | Some v \<Rightarrow> v)"
    and "\<And>k. k \<noteq> ''precip'' \<Longrightarrow> map_of s1 k = map_of s k"
  using assms
  by (auto simp: precip_step_def reported_def Let_def update_conv' split: option.splits if_splits)

lemma amount_step_result:
  assumes "amount_step N field avg s = Inr (avg1, s1)"
  shows "case reported N field s of
           Some v \<Rightarrow> (\<exists>f. py_float N v = Inr f) \<and> map_of s1 field = Some (halved N v) \<and>
                     avg1 = halved N v
         | None \<Rightarrow> map_of s1 field = (if ne_zero N avg then Some avg else map_of s field) \<and>
                   avg1 = PInt 0"
    and "\<And>k. k \<noteq> field \<Longrightarrow> map_of s1 k = map_of s k"
  using assms
  by (auto simp: amount_step_def reported_def halved_def Let_def update_conv'
           split: option.splits if_splits sum.splits)

lemma cleanup_slot_steps:
  assumes "cleanup_slot N c s = Inr (c2, s1)"
  shows "\<exists>tmp1 sa rain1 sb snow1.
           precip_step N (tmpPrecip c) s = (tmp1, sa) \<and>
           amount_step N ''rain_amount'' (averageRain c) sa = Inr (rain1, sb) \<and>
           amount_step N ''snow_amount'' (averageSnow c) sb = Inr (snow1, s1) \<and>
           c2 = \<lparr>tmpPrecip = tmp1, averageRain = rain1, averageSnow = snow1\<rparr>"
  using assms by (auto simp: cleanup_slot_def split: prod.splits sum.splits)

lemma reported_cong: "map_of sa field = map_of s field \<Longrightarrow> reported N field sa = reported N field s"
  by (simp add: reported_def)

lemma cleanup_slot_precip:
  assumes "cleanup_slot N c s = Inr (c2, s1)"
  shows "map_of s1 ''precip'' =
           (if truthy N (tmpPrecip c) \<and> reported N ''precip'' s = None then Some (tmpPrecip c)
            else map_of s ''precip'')"
    and "tmpPrecip c2 = (case reported N ''precip'' s of None \<Rightarrow> tmpPrecip c | Some v \<Rightarrow> v)"
proof -
  from cleanup_slot_steps[OF assms] obtain tmp1 sa rain1 sb snow1 where
    a: "precip_step N (tmpPrecip c) s = (tmp1, sa)"
    and b: "amount_step N ''rain_amount'' (averageRain c) sa = Inr (rain1, sb)"
    and d: "amount_step N ''snow_amount'' (averageSnow c) sb = Inr (snow1, s1)"
    and c2: "c2 = \<lparr>tmpPrecip = tmp1, averageRain = rain1, averageSnow = snow1\<rparr>" by blast
  have "map_of s1 ''precip'' = map_of sb ''precip''" using amount_step_result(2)[OF d] by simp
  also have "\<dots> = map_of sa ''precip''" using amount_step_result(2)[OF b] by simp
  finally show "map_of s1 ''precip'' =
           (if truthy N (tmpPrecip c) \<and> reported N ''precip'' s = None then Some (tmpPrecip c)
            else map_of s ''precip'')"
    using precip_step_result(1)[OF a] by simp
  show "tmpPrecip c2 = (case reported N ''precip'' s of None \<Rightarrow> tmpPrecip c | Some v \<Rightarrow> v)"
    using precip_step_result(2)[OF a] c2 by simp
qed

lemma cleanup_slot_amount:
  assumes cs: "cleanup_slot N c s = Inr (c2, s1)"
    and f: "field = ''rain_amount'' \<or> field = ''snow_amount''"
  shows "case reported N field s of
           Some v \<Rightarrow> (\<exists>f. py_float N v = Inr f) \<and> map_of s1 field = Some (halved N v) \<and>
                     average_of field c2 = halved N v
         | None \<Rightarrow> map_of s1 field =
                     (if ne_zero N (average_of field c) then Some (average_of field c)
                      else map_of s field) \<and>
                   average_of field c2 = PInt 0"
proof -
  from cleanup_slot_steps[OF cs] obtain tmp1 sa rain1 sb snow1 where
    a: "precip_step N (tmpPrecip c) s = (tmp1, sa)"
    and b: "amount_step N ''rain_amount'' (averageRain c) sa = Inr (rain1, sb)"
    and d: "amount_step N ''snow_amount'' (averageSnow c) sb = Inr (snow1, s1)"
    and c2: "c2 = \<lparr>tmpPrecip = tmp1, averageRain = rain1, averageSnow = snow1\<rparr>" by blast
  from f show ?thesis
  proof
    assume fr: "field = ''rain_amount''"
    have m: "map_of sa ''rain_amount'' = map_of s ''rain_amount''"
      using precip_step_result(3)[OF a] by simp
    have r: "reported N ''rain_amount'' sa = reported N ''rain_amount'' s"
      by (rule reported_cong[OF m])
    have k: "map_of s1 ''rain_amount'' = map_of sb ''rain_amount''"
      using amount_step_result(2)[OF d] by simp
    from amount_step_result(1)[OF b] show ?thesis
      unfolding fr r m k by (auto simp: average_of_def c2 split: option.splits)
  next
    assume fs: "field = ''snow_amount''"
    have m: "map_of sb ''snow_amount'' = map_of s ''snow_amount''"
      using precip_step_result(3)[OF a] amount_step_result(2)[OF b] by simp
    have r: "reported N ''snow_amount'' sb = reported N ''snow_amount'' s"
      by (rule reported_cong[OF m])
    from amount_step_result(1)[OF d] show ?thesis
      unfolding fs r m by (auto simp: average_of_def c2 split: option.splits)
  qed
qed

lemma cleanup_slot_other:
  assumes "cleanup_slot N c s = Inr (c2, s1)"
    "k \<noteq> ''precip''" "k \<noteq> ''rain_amount''" "k \<noteq> ''snow_amount''"
  shows "map_of s1 k = map_of s k"
proof -
  from cleanup_slot_steps[OF assms(1)] obtain tmp1 sa rain1 sb snow1 where
    a: "precip_step N (tmpPrecip c) s = (tmp1, sa)"
    and b: "amount_step N ''rain_amount'' (averageRain c) sa = Inr (rain1, sb)"
    and d: "amount_step N ''snow_amount'' (averageSnow c) sb = Inr (snow1, s1)" by blast
  from precip_step_result(3)[OF a assms(2)] amount_step_result(2)[OF b assms(3)]
    amount_step_result(2)[OF d assms(4)] show ?thesis by simp
qed

lemma cleanup_slot_temp:
  assumes "cleanup_slot N c s = Inr (c2, s1)"
  shows "has_key s1 ''temp'' = has_key s ''temp''"
  using cleanup_slot_other[OF assms, of "''temp''"] by (simp add: has_key_def)

lemma last_reported_Cons:
  "last_reported N field (ss @ [s]) =
     (case reported N field s of None \<Rightarrow> last_reported N field ss | Some v \<Rightarrow> Some v)"
  by (auto simp: last_reported_def split: option.splits)

lemma last_reported_truthy: "last_reported N field ss = Some v \<Longrightarrow> truthy N v"
proof -
  assume a: "last_reported N field ss = Some v"
  then obtain s where "reported N field s = Some v"
    by (auto simp: last_reported_def split: option.splits)
  then show ?thesis by (auto simp: reported_def split: option.splits if_splits)
qed

lemma pass_snoc:
  "pass N c (xs @ [(k, s)]) = Inr (c2, outs) \<Longrightarrow>
   \<exists>c1 o1 s1. pass N c xs = Inr (c1, o1) \<and> cleanup_slot N c1 s = Inr (c2, s1)"
  unfolding pass_append by (auto split: sum.splits prod.splits)

lemma pass_tmpPrecip:
  "pass N c xs = Inr (c1, outs) \<Longrightarrow>
   tmpPrecip c1 =
     (case last_reported N ''precip'' (map snd xs) of None \<Rightarrow> tmpPrecip c | Some v \<Rightarrow> v)"
proof (induction xs arbitrary: c1 outs rule: rev_induct)
  case Nil
  then show ?case by (simp add: last_reported_def)
next
  case (snoc x xs)
  obtain k s where x: "x = (k, s)" by (cases x)
  from pass_snoc[OF snoc.prems[unfolded x]] obtain c' o1 s1 where
    p: "pass N c xs = Inr (c', o1)" and cs: "cleanup_slot N c' s = Inr (c1, s1)" by blast
  from snoc.IH[OF p] cleanup_slot_precip(2)[OF cs] x show ?case
    by (simp add: last_reported_Cons split: option.splits)
qed

lemma carried_snoc:
  "carried N field (ss @ [s]) =
     (case reported N field s of None \<Rightarrow> PInt 0 | Some v \<Rightarrow> halved N v)"
  by (simp add: carried_def)

lemma pass_average:
  assumes "pass N c xs = Inr (c1, outs)" "field = ''rain_amount'' \<or> field = ''snow_amount''"
  shows "average_of field c1 =
           (if xs = [] then average_of field c else carried N field (map snd xs))"
proof (cases xs rule: rev_cases)
  case Nil
  with assms(1) show ?thesis by simp
next
  case (snoc ys x)
  obtain k s where x: "x = (k, s)" by (cases x)
  from pass_snoc[OF assms(1)[unfolded snoc x]] obtain c' o1 s1 where
    cs: "cleanup_slot N c' s = Inr (c1, s1)" by blast
  from cleanup_slot_amount[OF cs assms(2)] snoc x show ?thesis
    by (simp add: carried_snoc split: option.splits)
qed

lemmas example_cleanup_defs =
  cleanup_def cleanup_slot_def precip_step_def amount_step_def carry0_def has_key_def
  hourly_example_def pruned_example_def exact_numerics_def rat_of_decimal_def
  unsigned_decimal_def nat_of_digits_def digit_value_def round_rat_def round_half_even_def
  Let_def

lemmas example_slots_defs =
  ordered_slots_def date_slots_def well_formed_def slot_at_def reported_def
  last_reported_def carried_def halved_def

text \<open>
  The hourly mapping that \<^verbatim>\<open>_hourly\<close> assembles is well-formed: it is built from the empty
  dict by assignments only, so the statements about \<^verbatim>\<open>_cleanup\<close> apply to every forecast
  that \<^verbatim>\<open>ForecastParser.parse\<close> post-processes.
\<close>

lemma combine_times_distinct:
  "distinct (map fst t0) \<Longrightarrow> distinct (map fst (combine_times t0 code additional))"
proof -
  have "\<And>t. distinct (map fst t) \<Longrightarrow>
      distinct (map fst (foldl (\<lambda>t (start_time, value).
              AList.update start_time (AList.update code value (get_or_empty t start_time)) t)
         t additional))"
  proof (induction additional)
    case Nil
    then show ?case by simp
  next
    case (Cons a additional)
    obtain k v where a: "a = (k, v)" by (cases a)
    show ?case using Cons.IH Cons.prems a by (simp add: distinct_update)
  qed
  then show "distinct (map fst t0) \<Longrightarrow> distinct (map fst (combine_times t0 code additional))"
    by (simp add: combine_times_def)
qed

lemma get_or_empty_distinct:
  "list_all (\<lambda>(date, tms). distinct (map fst tms)) h \<Longrightarrow> distinct (map fst (get_or_empty h d))"
  by (auto simp: get_or_empty_def list_all_iff split: option.splits dest: map_of_SomeD)

lemma update_list_all:
  "list_all P h \<Longrightarrow> P (k, v) \<Longrightarrow> list_all P (AList.update k v h)"
  by (induction h) auto

lemma combine_hourly_well_formed:
  "well_formed h0 \<Longrightarrow> well_formed (combine_hourly h0 code additional)"
proof -
  have "\<And>h. well_formed h \<Longrightarrow>
      well_formed (foldl (\<lambda>h (start_date, tms).
              AList.update start_date (combine_times (get_or_empty h start_date) code tms) h)
         h additional)"
  proof (induction additional)
    case Nil
    then show ?case by simp
  next
    case (Cons a additional)
    obtain d tms where a: "a = (d, tms)" by (cases a)
    have "well_formed (AList.update d (combine_times (get_or_empty h d) code tms) h)"
      using Cons.prems
      by (simp add: well_formed_def distinct_update update_list_all combine_times_distinct
          get_or_empty_distinct)
    from Cons.IH[OF this] a show ?case by simp
  qed
  then show "well_formed h0 \<Longrightarrow> well_formed (combine_hourly h0 code additional)"
    by (simp add: combine_hourly_def)
qed

lemma hourly_of_well_formed:
  assumes "hourly_of N d = Inr h"
  shows "well_formed h"
proof -
  have e: "well_formed ([] :: 'a hourly)" by (simp add: well_formed_def)
  from assms show ?thesis
    unfolding hourly_of_def
    by (elim and_then_Inr) (auto intro!: combine_hourly_well_formed e)
qed


section \<open>Post-processing: slots without a temperature\<close>

text \<open>
  Claim C9. When \<^verbatim>\<open>_cleanup\<close> returns, every slot of the returned hourly mapping has a
  \<^verbatim>\<open>temp\<close> field. A slot of the input is still there exactly when it had a \<^verbatim>\<open>temp\<close>
  field: the slots without one are removed from the mapping of their date, and no slot
  is added.
\<close>

theorem remaining_slots_have_temp:
  assumes wf: "well_formed (fc_hourly data)" and cl: "cleanup N data = Inr data1"
  shows "(\<forall>date time s1. slot_at (fc_hourly data1) date time = Some s1 \<longrightarrow> has_key s1 ''temp'')
    \<and> (\<forall>date time s. slot_at (fc_hourly data) date time = Some s \<longrightarrow>
          (slot_at (fc_hourly data1) date time \<noteq> None) = has_key s ''temp'')
    \<and> (\<forall>date time. slot_at (fc_hourly data) date time = None \<longrightarrow>
          slot_at (fc_hourly data1) date time = None)"
proof (intro conjI allI impI)
  fix date time s1
  assume a: "slot_at (fc_hourly data1) date time = Some s1"
  from cleanup_pass[OF wf cl] obtain c1 outs where
    l: "\<And>d t. slot_at (fc_hourly data1) d t =
              (case map_of outs (d, t) of
                 None \<Rightarrow> None
               | Some s1 \<Rightarrow> if has_key s1 ''temp'' then Some s1 else None)" by blast
  from a l[of date time] show "has_key s1 ''temp''"
    by (auto split: option.splits if_splits)
next
  fix date time s
  assume a: "slot_at (fc_hourly data) date time = Some s"
  then have "((date, time), s) \<in> set (ordered_slots (fc_hourly data))"
    by (simp add: ordered_slots_member[OF wf])
  then obtain pre post where
    os: "ordered_slots (fc_hourly data) = pre @ ((date, time), s) # post"
    by (auto simp: in_set_conv_decomp)
  from cleanup_slot_at[OF wf cl os] obtain c c2 s1 o1 where
    cs: "cleanup_slot N c s = Inr (c2, s1)"
    and r: "slot_at (fc_hourly data1) date time = (if has_key s1 ''temp'' then Some s1 else None)"
    by blast
  from r cleanup_slot_temp[OF cs]
  show "(slot_at (fc_hourly data1) date time \<noteq> None) = has_key s ''temp''" by simp
next
  fix date time
  assume a: "slot_at (fc_hourly data) date time = None"
  from cleanup_pass[OF wf cl] obtain c1 outs where
    p: "pass N carry0 (ordered_slots (fc_hourly data)) = Inr (c1, outs)"
    and l: "\<And>d t. slot_at (fc_hourly data1) d t =
              (case map_of outs (d, t) of
                 None \<Rightarrow> None
               | Some s1 \<Rightarrow> if has_key s1 ''temp'' then Some s1 else None)" by blast
  have "(date, time) \<notin> fst ` set outs"
  proof
    assume "(date, time) \<in> fst ` set outs"
    then have "(date, time) \<in> set (map fst outs)" by simp
    then have "(date, time) \<in> set (map fst (ordered_slots (fc_hourly data)))"
      unfolding pass_keys[OF p] .
    then obtain s where "((date, time), s) \<in> set (ordered_slots (fc_hourly data))" by auto
    with a show False by (simp add: ordered_slots_member[OF wf])
  qed
  then have "map_of outs (date, time) = None" by (simp add: map_of_eq_None_iff)
  with l[of date time] show "slot_at (fc_hourly data1) date time = None" by simp
qed

text \<open>
  The example with a slot without temperature at 21:00 on 2020-02-07: after the pass
  that slot is gone (its date keeps an empty mapping) and the slot that remains has a
  temperature.
\<close>

theorem remaining_slots_have_temp_witness:
  "cleanup exact_numerics pruned_example =
     Inr \<lparr>fc_daily = [],
          fc_hourly =
            [(''2020-02-07'', []),
             (''2020-02-08'',
              [(''00:00:00'',
                [(''temp'', PStr ''30''), (''precip'', PStr ''40''),
                 (''rain_amount'', PFloat (1 / 5))])])]\<rparr>
   \<and> well_formed (fc_hourly pruned_example)
   \<and> slot_at (fc_hourly pruned_example) ''2020-02-07'' ''21:00:00''
       = Some [(''precip'', PStr ''40''), (''rain_amount'', PStr ''0.40'')]
   \<and> \<not> has_key [(''precip'', PStr ''40''), (''rain_amount'', PStr ''0.40'' :: rat pyval)] ''temp''"
proof -
  let ?out = "\<lparr>fc_daily = [],
          fc_hourly =
            [(''2020-02-07'', []),
             (''2020-02-08'',
              [(''00:00:00'',
                [(''temp'', PStr ''30''), (''precip'', PStr ''40''),
                 (''rain_amount'', PFloat (1 / 5 :: rat))])])]\<rparr>"
  have ev: "cleanup exact_numerics pruned_example = Inr ?out"
    by (simp add: example_cleanup_defs)
  have wf: "well_formed (fc_hourly pruned_example)"
    by (simp add: well_formed_def pruned_example_def)
  have sl: "slot_at (fc_hourly pruned_example) ''2020-02-07'' ''21:00:00''
       = Some [(''precip'', PStr ''40''), (''rain_amount'', PStr ''0.40'')]"
    by (simp add: slot_at_def pruned_example_def)
  from remaining_slots_have_temp[OF wf ev] sl
  have "(slot_at (fc_hourly ?out) ''2020-02-07'' ''21:00:00'' \<noteq> None)
      = has_key [(''precip'', PStr ''40''), (''rain_amount'', PStr ''0.40'' :: rat pyval)] ''temp''"
    by blast
  then have nt: "\<not> has_key [(''precip'', PStr ''40''), (''rain_amount'', PStr ''0.40'' :: rat pyval)]
      ''temp''"
    by (simp add: slot_at_def)
  from ev wf sl nt show ?thesis by simp
qed


section \<open>Post-processing: the probability of precipitation\<close>

text \<open>
  Claim C3. Take the slots in the order of the pass (dates ascending, then times
  ascending) and a slot with a temperature. When the slot reports a \<^verbatim>\<open>precip\<close> value
  (the field is there and truthy), it keeps it. Otherwise it receives the value reported
  most recently by an earlier slot of the pass, of whatever date; when no earlier slot
  reported one, its \<^verbatim>\<open>precip\<close> field is left as it was.
\<close>

theorem precip_carried_forward:
  assumes wf: "well_formed (fc_hourly data)" and cl: "cleanup N data = Inr data1"
    and os: "ordered_slots (fc_hourly data) = pre @ ((date, time), slot) # post"
    and tp: "has_key slot ''temp''"
  shows "\<exists>slot1. slot_at (fc_hourly data1) date time = Some slot1 \<and>
           map_of slot1 ''precip'' =
             (case reported N ''precip'' slot of
                Some v \<Rightarrow> Some v
              | None \<Rightarrow>
                  (case last_reported N ''precip'' (map snd pre) of
                     Some v \<Rightarrow> Some v
                   | None \<Rightarrow> map_of slot ''precip''))"
proof -
  from cleanup_slot_at[OF wf cl os] obtain c c2 s1 o1 where
    p: "pass N carry0 pre = Inr (c, o1)" and cs: "cleanup_slot N c slot = Inr (c2, s1)"
    and r: "slot_at (fc_hourly data1) date time = (if has_key s1 ''temp'' then Some s1 else None)"
    by blast
  from r cleanup_slot_temp[OF cs] tp have a: "slot_at (fc_hourly data1) date time = Some s1"
    by simp
  have t: "tmpPrecip c =
     (case last_reported N ''precip'' (map snd pre) of None \<Rightarrow> PNone | Some v \<Rightarrow> v)"
  proof -
    have "tmpPrecip (carry0 :: 'a carry) = PNone" by (simp add: carry0_def)
    with pass_tmpPrecip[OF p] show ?thesis by (simp split: option.splits)
  qed
  have b: "map_of s1 ''precip'' =
             (case reported N ''precip'' slot of
                Some v \<Rightarrow> Some v
              | None \<Rightarrow>
                  (case last_reported N ''precip'' (map snd pre) of
                     Some v \<Rightarrow> Some v
                   | None \<Rightarrow> map_of slot ''precip''))"
  proof (cases "reported N ''precip'' slot")
    case (Some v)
    then have "map_of slot ''precip'' = Some v"
      by (auto simp: reported_def split: option.splits if_splits)
    with cleanup_slot_precip(1)[OF cs] Some show ?thesis by simp
  next
    case None
    show ?thesis
    proof (cases "last_reported N ''precip'' (map snd pre)")
      case n: None
      with t have "\<not> truthy N (tmpPrecip c)" by simp
      with cleanup_slot_precip(1)[OF cs] None n show ?thesis by simp
    next
      case (Some v)
      with t last_reported_truthy[OF Some] have "truthy N (tmpPrecip c)" "tmpPrecip c = v"
        by simp_all
      with cleanup_slot_precip(1)[OF cs] None Some show ?thesis by simp
    qed
  qed
  from a b show ?thesis by blast
qed

text \<open>
  The example of the specification: 06:00 with a probability of 40, then 09:00 and 12:00
  without. The slot of 12:00 comes third in the pass and receives the 40 of 06:00.
\<close>

theorem precip_carried_forward_witness:
  "cleanup exact_numerics hourly_example =
     Inr \<lparr>fc_daily = [],
          fc_hourly =
            [(''2020-02-08'',
              [(''09:00:00'',
                [(''temp'', PStr ''31''), (''precip'', PStr ''40''),
                 (''rain_amount'', PFloat (1 / 5))]),
               (''06:00:00'',
                [(''temp'', PStr ''30''), (''precip'', PStr ''40''),
                 (''rain_amount'', PFloat (1 / 5)), (''snow_amount'', PNone)]),
               (''12:00:00'', [(''temp'', PStr ''33''), (''precip'', PStr ''40'')])])]\<rparr>
   \<and> (\<exists>slot1. map_of [(''09:00:00'',
                [(''temp'', PStr ''31''), (''precip'', PStr ''40''),
                 (''rain_amount'', PFloat (1 / 5 :: rat))]),
               (''06:00:00'',
                [(''temp'', PStr ''30''), (''precip'', PStr ''40''),
                 (''rain_amount'', PFloat (1 / 5)), (''snow_amount'', PNone)]),
               (''12:00:00'', [(''temp'', PStr ''33''), (''precip'', PStr ''40'')])]
              ''12:00:00'' = Some slot1
        \<and> map_of slot1 ''precip'' = Some (PStr ''40''))"
proof -
  let ?tms = "[(''09:00:00'',
                [(''temp'', PStr ''31''), (''precip'', PStr ''40''),
                 (''rain_amount'', PFloat (1 / 5 :: rat))]),
               (''06:00:00'',
                [(''temp'', PStr ''30''), (''precip'', PStr ''40''),
                 (''rain_amount'', PFloat (1 / 5)), (''snow_amount'', PNone)]),
               (''12:00:00'', [(''temp'', PStr ''33''), (''precip'', PStr ''40'')])]"
  let ?out = "\<lparr>fc_daily = [], fc_hourly = [(''2020-02-08'', ?tms)]\<rparr>"
  have ev: "cleanup exact_numerics hourly_example = Inr ?out"
    by (simp add: example_cleanup_defs)
  have wf: "well_formed (fc_hourly hourly_example)"
    by (simp add: well_formed_def hourly_example_def)
  have os: "ordered_slots (fc_hourly hourly_example) =
      [((''2020-02-08'', ''06:00:00''),
        [(''temp'', PStr ''30''), (''precip'', PStr ''40''), (''rain_amount'', PStr ''0.40'')]),
       ((''2020-02-08'', ''09:00:00''), [(''temp'', PStr ''31'')])]
      @ ((''2020-02-08'', ''12:00:00''), [(''temp'', PStr ''33'')]) # []"
    by (simp add: ordered_slots_def date_slots_def hourly_example_def)
  have tp: "has_key [(''temp'', PStr ''33'' :: rat pyval)] ''temp''" by (simp add: has_key_def)
  from precip_carried_forward[OF wf ev os tp]
  have "\<exists>slot1. map_of ?tms ''12:00:00'' = Some slot1
        \<and> map_of slot1 ''precip'' = Some (PStr ''40'')"
    by (simp add: slot_at_def reported_def last_reported_def exact_numerics_def)
  with ev show ?thesis by blast
qed


section \<open>Post-processing: rain and snow amounts\<close>

text \<open>
  Claim C2. Take the slots in the order of the pass and a slot with a temperature; the
  field is \<^verbatim>\<open>rain_amount\<close> or \<^verbatim>\<open>snow_amount\<close>, each with its own carry-over. When the slot
  reports an amount, the amount reads as a float and the slot ends with half of it,
  rounded to two decimals. Otherwise the slot receives the carry-over when that is not
  zero, and keeps its field as it was when the carry-over is zero. The carry-over is
  the halved amount of the slot just before when that slot reported one, zero when it
  did not (it was reset), and \<^verbatim>\<open>None\<close> at the first slot of the pass.
\<close>

theorem amounts_halved_and_carried:
  assumes wf: "well_formed (fc_hourly data)" and cl: "cleanup N data = Inr data1"
    and os: "ordered_slots (fc_hourly data) = pre @ ((date, time), slot) # post"
    and tp: "has_key slot ''temp''"
    and fd: "field = ''rain_amount'' \<or> field = ''snow_amount''"
  shows "\<exists>slot1. slot_at (fc_hourly data1) date time = Some slot1 \<and>
           (case reported N field slot of
              Some v \<Rightarrow> (\<exists>f. py_float N v = Inr f) \<and> map_of slot1 field = Some (halved N v)
            | None \<Rightarrow>
                map_of slot1 field =
                  (if ne_zero N (carried N field (map snd pre))
                   then Some (carried N field (map snd pre))
                   else map_of slot field))"
proof -
  from cleanup_slot_at[OF wf cl os] obtain c c2 s1 o1 where
    p: "pass N carry0 pre = Inr (c, o1)" and cs: "cleanup_slot N c slot = Inr (c2, s1)"
    and r: "slot_at (fc_hourly data1) date time = (if has_key s1 ''temp'' then Some s1 else None)"
    by blast
  from r cleanup_slot_temp[OF cs] tp have a: "slot_at (fc_hourly data1) date time = Some s1"
    by simp
  have av: "average_of field c = carried N field (map snd pre)"
  proof (cases "pre = []")
    case True
    with p have "c = carry0" by simp
    with True show ?thesis by (simp add: average_of_def carry0_def carried_def)
  next
    case False
    with pass_average[OF p fd] show ?thesis by simp
  qed
  from cleanup_slot_amount[OF cs fd] av
  have "case reported N field slot of
              Some v \<Rightarrow> (\<exists>f. py_float N v = Inr f) \<and> map_of s1 field = Some (halved N v)
            | None \<Rightarrow>
                map_of s1 field =
                  (if ne_zero N (carried N field (map snd pre))
                   then Some (carried N field (map snd pre))
                   else map_of slot field)"
    by (auto split: option.splits)
  with a show ?thesis by blast
qed

text \<open>
  The example of the specification: the slot of 06:00 reports a rain amount of 0.40 and
  ends with 0.20; the slot of 09:00, which has no \<^verbatim>\<open>rain_amount\<close>, comes next in the pass
  and receives 0.20.
\<close>

theorem amounts_halved_and_carried_witness:
  "cleanup exact_numerics hourly_example =
     Inr \<lparr>fc_daily = [],
          fc_hourly =
            [(''2020-02-08'',
              [(''09:00:00'',
                [(''temp'', PStr ''31''), (''precip'', PStr ''40''),
                 (''rain_amount'', PFloat (1 / 5))]),
               (''06:00:00'',
                [(''temp'', PStr ''30''), (''precip'', PStr ''40''),
                 (''rain_amount'', PFloat (1 / 5)), (''snow_amount'', PNone)]),
               (''12:00:00'', [(''temp'', PStr ''33''), (''precip'', PStr ''40'')])])]\<rparr>
   \<and> (\<exists>slot1. map_of [(''09:00:00'',
                [(''temp'', PStr ''31''), (''precip'', PStr ''40''),
                 (''rain_amount'', PFloat (1 / 5 :: rat))]),
               (''06:00:00'',
                [(''temp'', PStr ''30''), (''precip'', PStr ''40''),
                 (''rain_amount'', PFloat (1 / 5)), (''snow_amount'', PNone)]),
               (''12:00:00'', [(''temp'', PStr ''33''), (''precip'', PStr ''40'')])]
              ''09:00:00'' = Some slot1
        \<and> map_of slot1 ''rain_amount'' = Some (PFloat (1 / 5)))
   \<and> halved exact_numerics (PStr ''0.40'') = PFloat (1 / 5)"
proof -
  let ?tms = "[(''09:00:00'',
                [(''temp'', PStr ''31''), (''precip'', PStr ''40''),
                 (''rain_amount'', PFloat (1 / 5 :: rat))]),
               (''06:00:00'',
                [(''temp'', PStr ''30''), (''precip'', PStr ''40''),
                 (''rain_amount'', PFloat (1 / 5)), (''snow_amount'', PNone)]),
               (''12:00:00'', [(''temp'', PStr ''33''), (''precip'', PStr ''40'')])]"
  let ?out = "\<lparr>fc_daily = [], fc_hourly = [(''2020-02-08'', ?tms)]\<rparr>"
  have ev: "cleanup exact_numerics hourly_example = Inr ?out"
    by (simp add: example_cleanup_defs)
  have wf: "well_formed (fc_hourly hourly_example)"
    by (simp add: well_formed_def hourly_example_def)
  have os: "ordered_slots (fc_hourly hourly_example) =
      [((''2020-02-08'', ''06:00:00''),
        [(''temp'', PStr ''30''), (''precip'', PStr ''40''), (''rain_amount'', PStr ''0.40'')])]
      @ ((''2020-02-08'', ''09:00:00''), [(''temp'', PStr ''31'')])
      # [((''2020-02-08'', ''12:00:00''), [(''temp'', PStr ''33'')])]"
    by (simp add: ordered_slots_def date_slots_def hourly_example_def)
  have tp: "has_key [(''temp'', PStr ''31'' :: rat pyval)] ''temp''" by (simp add: has_key_def)
  have hv: "halved exact_numerics (PStr ''0.40'') = PFloat (1 / 5)"
    by (simp add: halved_def exact_numerics_def rat_of_decimal_def unsigned_decimal_def
        nat_of_digits_def digit_value_def round_rat_def round_half_even_def Let_def)
  have cr: "carried exact_numerics ''rain_amount''
      [[(''temp'', PStr ''30''), (''precip'', PStr ''40''), (''rain_amount'', PStr ''0.40'')]]
      = PFloat (1 / 5)"
    using hv by (simp add: carried_def reported_def exact_numerics_def)
  have nr: "reported exact_numerics ''rain_amount'' [(''temp'', PStr ''31'')] = None"
    by (simp add: reported_def)
  have nz: "ne_zero exact_numerics (PFloat (1 / 5))" by (simp add: exact_numerics_def)
  from amounts_halved_and_carried[OF wf ev os tp, of "''rain_amount''"]
  have "\<exists>slot1. map_of ?tms ''09:00:00'' = Some slot1
        \<and> map_of slot1 ''rain_amount'' = Some (PFloat (1 / 5))"
    by (simp add: slot_at_def cr nr nz)
  with ev hv show ?thesis by blast
qed


section \<open>Post-processing: a removed slot still feeds the carry-over\<close>

text \<open>
  Claim C10. Take two slots that follow each other in the pass, the first without a
  temperature and the second with one. The first is removed. The second, when it
  reports no \<^verbatim>\<open>precip\<close>, receives the \<^verbatim>\<open>precip\<close> that the removed slot reported; and when
  it reports no rain (or snow) amount, it receives half the amount that the removed slot
  reported, if that half is not zero. The loop body updates the three carried variables
  before it tests for \<^verbatim>\<open>temp\<close>.
\<close>

theorem pruned_slot_still_carries:
  assumes wf: "well_formed (fc_hourly data)" and cl: "cleanup N data = Inr data1"
    and os: "ordered_slots (fc_hourly data) =
               pre @ ((d0, t0), s0) # ((date, time), slot) # post"
    and nt: "\<not> has_key s0 ''temp''" and tp: "has_key slot ''temp''"
  shows "slot_at (fc_hourly data1) d0 t0 = None
    \<and> (\<exists>slot1. slot_at (fc_hourly data1) date time = Some slot1 \<and>
         (\<forall>p. reported N ''precip'' slot = None \<and> reported N ''precip'' s0 = Some p \<longrightarrow>
               map_of slot1 ''precip'' = Some p) \<and>
         (\<forall>field v. (field = ''rain_amount'' \<or> field = ''snow_amount'') \<and>
               reported N field slot = None \<and> reported N field s0 = Some v \<longrightarrow>
               (\<exists>f. py_float N v = Inr f) \<and>
               map_of slot1 field =
                 (if ne_zero N (halved N v) then Some (halved N v) else map_of slot field)))"
proof -
  from cleanup_slot_at[OF wf cl os] obtain c0 c0' s0' o0 where
    cs0: "cleanup_slot N c0 s0 = Inr (c0', s0')"
    and r0: "slot_at (fc_hourly data1) d0 t0 = (if has_key s0' ''temp'' then Some s0' else None)"
    by blast
  from r0 cleanup_slot_temp[OF cs0] nt have gone: "slot_at (fc_hourly data1) d0 t0 = None"
    by simp
  have os': "ordered_slots (fc_hourly data) =
               (pre @ [((d0, t0), s0)]) @ ((date, time), slot) # post"
    using os by simp
  from cleanup_slot_at[OF wf cl os'] obtain c c2 s1 o1 where
    p: "pass N carry0 (pre @ [((d0, t0), s0)]) = Inr (c, o1)"
    and cs: "cleanup_slot N c slot = Inr (c2, s1)"
    and r: "slot_at (fc_hourly data1) date time = (if has_key s1 ''temp'' then Some s1 else None)"
    by blast
  from r cleanup_slot_temp[OF cs] tp have a: "slot_at (fc_hourly data1) date time = Some s1"
    by simp
  from pass_snoc[OF p] obtain cb ob sb where
    csb: "cleanup_slot N cb s0 = Inr (c, sb)" by blast
  have pr: "\<forall>p. reported N ''precip'' slot = None \<and> reported N ''precip'' s0 = Some p \<longrightarrow>
               map_of s1 ''precip'' = Some p"
  proof (intro allI impI)
    fix q assume h: "reported N ''precip'' slot = None \<and> reported N ''precip'' s0 = Some q"
    then have tq: "truthy N q" by (auto simp: reported_def split: option.splits if_splits)
    from cleanup_slot_precip(2)[OF csb] h have "tmpPrecip c = q" by simp
    with cleanup_slot_precip(1)[OF cs] h tq show "map_of s1 ''precip'' = Some q" by simp
  qed
  have am: "\<forall>field v. (field = ''rain_amount'' \<or> field = ''snow_amount'') \<and>
               reported N field slot = None \<and> reported N field s0 = Some v \<longrightarrow>
               (\<exists>f. py_float N v = Inr f) \<and>
               map_of s1 field =
                 (if ne_zero N (halved N v) then Some (halved N v) else map_of slot field)"
  proof (intro allI impI)
    fix field v
    assume h: "(field = ''rain_amount'' \<or> field = ''snow_amount'') \<and>
               reported N field slot = None \<and> reported N field s0 = Some v"
    then have fd: "field = ''rain_amount'' \<or> field = ''snow_amount''" by simp
    from cleanup_slot_amount[OF csb fd] h have
      f: "\<exists>f. py_float N v = Inr f" and av: "average_of field c = halved N v" by simp_all
    from cleanup_slot_amount[OF cs fd] h av have
      "map_of s1 field =
         (if ne_zero N (halved N v) then Some (halved N v) else map_of slot field)" by simp
    with f show "(\<exists>f. py_float N v = Inr f) \<and>
               map_of s1 field =
                 (if ne_zero N (halved N v) then Some (halved N v) else map_of slot field)"
      by simp
  qed
  from gone a pr am show ?thesis by blast
qed

text \<open>
  The example with the slot of 2020-02-07 21:00, which has no temperature, a probability
  of 40 and a rain amount of 0.40: it is removed, and the slot of 2020-02-08 00:00, the
  next in the pass, receives the probability 40 and the halved amount 0.20.
\<close>

theorem pruned_slot_still_carries_witness:
  "cleanup exact_numerics pruned_example =
     Inr \<lparr>fc_daily = [],
          fc_hourly =
            [(''2020-02-07'', []),
             (''2020-02-08'',
              [(''00:00:00'',
                [(''temp'', PStr ''30''), (''precip'', PStr ''40''),
                 (''rain_amount'', PFloat (1 / 5))])])]\<rparr>
   \<and> (\<exists>slot1. map_of [(''00:00:00'',
                [(''temp'', PStr ''30''), (''precip'', PStr ''40''),
                 (''rain_amount'', PFloat (1 / 5 :: rat))])] ''00:00:00'' = Some slot1
        \<and> map_of slot1 ''precip'' = Some (PStr ''40'')
        \<and> map_of slot1 ''rain_amount'' = Some (PFloat (1 / 5)))"
proof -
  let ?tms = "[(''00:00:00'',
                [(''temp'', PStr ''30''), (''precip'', PStr ''40''),
                 (''rain_amount'', PFloat (1 / 5 :: rat))])]"
  let ?out = "\<lparr>fc_daily = [], fc_hourly = [(''2020-02-07'', []), (''2020-02-08'', ?tms)]\<rparr>"
  let ?s0 = "[(''precip'', PStr ''40''), (''rain_amount'', PStr ''0.40'' :: rat pyval)]"
  have ev: "cleanup exact_numerics pruned_example = Inr ?out"
    by (simp add: example_cleanup_defs)
  have wf: "well_formed (fc_hourly pruned_example)"
    by (simp add: well_formed_def pruned_example_def)
  have os: "ordered_slots (fc_hourly pruned_example) =
      [] @ ((''2020-02-07'', ''21:00:00''), ?s0)
      # ((''2020-02-08'', ''00:00:00''), [(''temp'', PStr ''30'')]) # []"
    by (simp add: ordered_slots_def date_slots_def pruned_example_def)
  have nt: "\<not> has_key ?s0 ''temp''" by (simp add: has_key_def)
  have tp: "has_key [(''temp'', PStr ''30'' :: rat pyval)] ''temp''" by (simp add: has_key_def)
  have hv: "halved exact_numerics (PStr ''0.40'') = PFloat (1 / 5)"
    by (simp add: halved_def exact_numerics_def rat_of_decimal_def unsigned_decimal_def
        nat_of_digits_def digit_value_def round_rat_def round_half_even_def Let_def)
  have r1: "reported exact_numerics ''precip'' [(''temp'', PStr ''30'')] = None"
    "reported exact_numerics ''rain_amount'' [(''temp'', PStr ''30'')] = None"
    "reported exact_numerics ''precip'' ?s0 = Some (PStr ''40'')"
    "reported exact_numerics ''rain_amount'' ?s0 = Some (PStr ''0.40'')"
    by (simp_all add: reported_def)
  have nz: "\<not> fl_is_zero exact_numerics (1 / 5 :: rat)" by (simp add: exact_numerics_def)
  from pruned_slot_still_carries[OF wf ev os nt tp] obtain slot1 where
    a: "slot_at (fc_hourly ?out) ''2020-02-08'' ''00:00:00'' = Some slot1"
    and b: "\<forall>p. reported exact_numerics ''precip'' [(''temp'', PStr ''30'')] = None \<and>
              reported exact_numerics ''precip'' ?s0 = Some p \<longrightarrow>
              map_of slot1 ''precip'' = Some p"
    and c: "\<forall>field v. (field = ''rain_amount'' \<or> field = ''snow_amount'') \<and>
               reported exact_numerics field [(''temp'', PStr ''30'')] = None \<and>
               reported exact_numerics field ?s0 = Some v \<longrightarrow>
               (\<exists>f. py_float exact_numerics v = Inr f) \<and>
               map_of slot1 field =
                 (if ne_zero exact_numerics (halved exact_numerics v)
                  then Some (halved exact_numerics v)
                  else map_of [(''temp'', PStr ''30'')] field)"
    by blast
  from b r1 have b': "map_of slot1 ''precip'' = Some (PStr ''40'')" by blast
  from c r1 have "map_of slot1 ''rain_amount'' =
      (if ne_zero exact_numerics (halved exact_numerics (PStr ''0.40''))
       then Some (halved exact_numerics (PStr ''0.40''))
       else map_of [(''temp'', PStr ''30'')] ''rain_amount'')" by blast
  then have c': "map_of slot1 ''rain_amount'' = Some (PFloat (1 / 5))"
    by (simp add: hv nz)
  from a have a': "map_of ?tms ''00:00:00'' = Some slot1" by (simp add: slot_at_def)
  from ev a' b' c' show ?thesis by blast
qed


end
